theory Spec2Isabelle
  imports Complex_Main
begin

section \<open>Three-dimensional vectors\<close>

text \<open>
  Coordinates are numpy arrays of shape (3,) holding doubles. They are modelled as triples
  of real numbers: the rounding of the geometry, overflow and signed zeros are outside
  the model. Two things of the doubles are kept. A division by zero, which numpy answers
  with nan or inf components and no exception, has the value None. The table of radius
  sums of the clash test is the table of the double sums, since the comparison at the
  boundary depends on their last bits.
\<close>

type_synonym vec3 = "real \<times> real \<times> real"

type_synonym mat3 = "vec3 \<times> vec3 \<times> vec3"

fun vsub :: "vec3 \<Rightarrow> vec3 \<Rightarrow> vec3" where
  "vsub (a1, a2, a3) (b1, b2, b3) = (a1 - b1, a2 - b2, a3 - b3)"

fun vadd :: "vec3 \<Rightarrow> vec3 \<Rightarrow> vec3" where
  "vadd (a1, a2, a3) (b1, b2, b3) = (a1 + b1, a2 + b2, a3 + b3)"

fun vneg :: "vec3 \<Rightarrow> vec3" where
  "vneg (a1, a2, a3) = (- a1, - a2, - a3)"

fun smul :: "real \<Rightarrow> vec3 \<Rightarrow> vec3" where
  "smul k (a1, a2, a3) = (k * a1, k * a2, k * a3)"

fun sdiv :: "vec3 \<Rightarrow> real \<Rightarrow> vec3" where
  "sdiv (a1, a2, a3) k = (a1 / k, a2 / k, a3 / k)"

fun cross :: "vec3 \<Rightarrow> vec3 \<Rightarrow> vec3" where
  "cross (a1, a2, a3) (b1, b2, b3) =
     (a2 * b3 - a3 * b2, a3 * b1 - a1 * b3, a1 * b2 - a2 * b1)"

fun dot :: "vec3 \<Rightarrow> vec3 \<Rightarrow> real" where
  "dot (a1, a2, a3) (b1, b2, b3) = a1 * b1 + a2 * b2 + a3 * b3"

text \<open>\<open>np.linalg.norm\<close> of a vector.\<close>

fun norm3 :: "vec3 \<Rightarrow> real" where
  "norm3 (a1, a2, a3) = sqrt (a1 * a1 + a2 * a2 + a3 * a3)"

definition zero3 :: vec3 where
  "zero3 = (0, 0, 0)"

text \<open>
  The in-place division \<open>v /= k\<close> of an array by a number: numpy does not raise for
  \<open>k = 0\<close>, the components become nan or inf, written None.
\<close>

definition np_divide :: "vec3 \<Rightarrow> real \<Rightarrow> vec3 option" where
  "np_divide v k = (if k = 0 then None else Some (sdiv v k))"

text \<open>\<open>np.dot\<close> of a vector of shape (3,) with a matrix of shape (3, 3) given by its rows.\<close>

fun vec_mat_dot :: "vec3 \<Rightarrow> mat3 \<Rightarrow> vec3" where
  "vec_mat_dot (x, y, z) (r1, r2, r3) = vadd (vadd (smul x r1) (smul y r2)) (smul z r3)"

fun mat_T :: "mat3 \<Rightarrow> mat3" where
  "mat_T ((a11, a12, a13), (a21, a22, a23), (a31, a32, a33)) =
     ((a11, a21, a31), (a12, a22, a32), (a13, a23, a33))"

fun mat_dot :: "mat3 \<Rightarrow> mat3 \<Rightarrow> mat3" where
  "mat_dot (r1, r2, r3) m = (vec_mat_dot r1 m, vec_mat_dot r2 m, vec_mat_dot r3 m)"

definition AXIS_111 :: mat3 where
  "AXIS_111 = ((1, 0, 0), (0, 1, 0), (0, 0, 1))"

section \<open>libcalc: the geometry kernel\<close>

text \<open>
  \<open>make_axis_vectors(A, B, C)\<close>: both cross products are taken from the vector A - B
  before it is normalised; each of the three vectors is divided by its length only when
  that length is positive, and is returned as it is otherwise. A returned vector is
  None when it has nan or inf components.
\<close>

definition make_axis_vectors ::
  "vec3 \<Rightarrow> vec3 \<Rightarrow> vec3 \<Rightarrow> vec3 option \<times> vec3 option \<times> vec3 option" where
  "make_axis_vectors A B C =
     (let AB_vect = vsub A B;
          parallel_ABC = cross AB_vect (vsub C B);
          perpendicular = cross AB_vect parallel_ABC;
          Alen = norm3 AB_vect;
          AB_vect' = (if Alen > 0 then np_divide AB_vect Alen else Some AB_vect);
          Nlen = norm3 parallel_ABC;
          parallel_ABC' =
            (if Nlen > 0 then np_divide parallel_ABC Nlen else Some parallel_ABC);
          Clen = norm3 perpendicular;
          perpendicular' =
            (if Clen > 0 then np_divide perpendicular Clen else Some perpendicular)
      in (parallel_ABC', AB_vect', perpendicular'))"

text \<open>A nan in one of the axis vectors is a nan in the matrix built from them.\<close>

definition rotation_to_plane :: "vec3 \<Rightarrow> vec3 \<Rightarrow> vec3 \<Rightarrow> mat3 option" where
  "rotation_to_plane A B C =
     (case make_axis_vectors A B C of
        (Some parallel_ABC, Some AB_vect, Some perpendicular) \<Rightarrow>
          Some (mat_T (mat_dot (AB_vect, vneg perpendicular, parallel_ABC) AXIS_111))
      | _ \<Rightarrow> None)"

definition make_coord_from_angles :: "real \<Rightarrow> real \<Rightarrow> real \<Rightarrow> vec3" where
  "make_coord_from_angles theta phi distance =
     (distance * cos phi, distance * sin phi * cos theta, distance * sin phi * sin theta)"

definition make_coord ::
  "real \<Rightarrow> real \<Rightarrow> real \<Rightarrow> vec3 \<Rightarrow> vec3 \<Rightarrow> vec3 \<Rightarrow> vec3 option" where
  "make_coord theta phi distance parent xaxis yaxis =
     (let new_coord = make_coord_from_angles theta phi distance
      in case rotation_to_plane parent xaxis yaxis of
           None \<Rightarrow> None
         | Some rotation \<Rightarrow>
             (let new_coord' = vec_mat_dot new_coord (mat_T rotation)
              in Some (vadd new_coord' parent)))"


section \<open>alphas/clash_validator.py\<close>

datatype error = ValueError | IndexError | AssertionError | KeyError

text \<open>
  A residue is a dict from atom name to coordinate; \<open>list(atom.values())\<close> reads the
  coordinates in insertion order. A chain is a list of residues.
\<close>

type_synonym residue = "(string \<times> vec3) list"

type_synonym chain = "residue list"

record ClashValidator =
  clashes :: int

definition ClashValidator_init :: ClashValidator where
  "ClashValidator_init = \<lparr>clashes = 0\<rparr>"

definition dict_values :: "residue \<Rightarrow> vec3 list" where
  "dict_values r = map snd r"

definition euclidean :: "vec3 \<Rightarrow> vec3 \<Rightarrow> real" where
  "euclidean a b = norm3 (vsub a b)"

text \<open>
  \<open>np.concatenate\<close> of the per-residue arrays. A residue without atoms gives an array
  of shape (0,), which cannot be joined to arrays of shape (k, 3); an empty list of arrays
  cannot be concatenated at all. Both raise ValueError.
\<close>

definition np_concatenate :: "vec3 list list \<Rightarrow> error + vec3 list" where
  "np_concatenate arrs =
     (if arrs = [] then Inl ValueError
      else if list_ex (\<lambda>a. a = []) arrs \<and> list_ex (\<lambda>a. a \<noteq> []) arrs then Inl ValueError
      else Inr (concat arrs))"

text \<open>
  \<open>scipy.spatial.distance.cdist\<close>: both arguments must be two-dimensional, which an
  array without atoms is not.
\<close>

definition cdist :: "vec3 list \<Rightarrow> vec3 list \<Rightarrow> error + real list list" where
  "cdist XA XB =
     (if XA = [] \<or> XB = [] then Inl ValueError
      else Inr (map (\<lambda>a. map (\<lambda>b. euclidean a b) XB) XA))"

text \<open>
  The radii and their sums are doubles. \<open>double_of\<close> rounds a real number to the nearest
  number with a significand of 53 bits, a tie going to the even significand, as reading
  a decimal literal and adding two doubles do (overflow and subnormal numbers are not
  modelled; the radii are far from both). \<open>rne\<close> rounds to the nearest integer, a tie to
  the even one, and \<open>pow2\<close> is a power of two with an integer exponent.
\<close>

definition rne :: "real \<Rightarrow> int" where
  "rne x =
     (let f = \<lfloor>x\<rfloor>; r = x - of_int f
      in if r < 1 / 2 then f else if 1 / 2 < r then f + 1 else if even f then f else f + 1)"

definition pow2 :: "int \<Rightarrow> real" where
  "pow2 e = (if 0 \<le> e then 2 ^ nat e else 1 / 2 ^ nat (- e))"

definition double_of :: "real \<Rightarrow> real" where
  "double_of x =
     (if x = 0 then 0
      else let e = \<lfloor>log 2 \<bar>x\<bar>\<rfloor>; u = pow2 (e - 52)
           in of_int (rne (x / u)) * u)"

text \<open>\<open>VDW = np.array([1.55, 1.7, 1.7, 1.52])\<close> and \<open>np.add.outer\<close>, which adds doubles.\<close>

definition VDW :: "real list" where
  "VDW = map double_of [1.55, 1.7, 1.7, 1.52]"

definition add_outer :: "real list \<Rightarrow> real list \<Rightarrow> real list list" where
  "add_outer xs ys = map (\<lambda>a. map (\<lambda>b. double_of (a + b)) ys) xs"


definition np_tile :: "'a list list \<Rightarrow> nat \<Rightarrow> nat \<Rightarrow> 'a list list" where
  "np_tile M r c = concat (replicate r (map (\<lambda>r. concat (replicate c r)) M))"

text \<open>\<open>math.ceil(x / 4)\<close> for a natural number x.\<close>

definition ceil4 :: "nat \<Rightarrow> nat" where
  "ceil4 x = (x + 3) div 4"

definition ncols :: "'a list list \<Rightarrow> nat" where
  "ncols M = (case M of [] \<Rightarrow> 0 | r # _ \<Rightarrow> length r)"

text \<open>
  Elementwise \<open><\<close> of two two-dimensional arrays with numpy's broadcasting: along each
  axis the two sizes must be equal, or one of them must be 1 and is then repeated;
  otherwise ValueError.
\<close>

definition bdim :: "nat \<Rightarrow> nat \<Rightarrow> nat option" where
  "bdim a b = (if a = b then Some a else if a = 1 then Some b else if b = 1 then Some a else None)"

definition bidx :: "nat \<Rightarrow> nat \<Rightarrow> nat" where
  "bidx n k = (if n = 1 then 0 else k)"

definition np_less :: "real list list \<Rightarrow> real list list \<Rightarrow> error + bool list list" where
  "np_less D A =
     (case (bdim (length D) (length A), bdim (ncols D) (ncols A)) of
        (Some r, Some c) \<Rightarrow>
          Inr (map (\<lambda>i. map (\<lambda>j. D ! bidx (length D) i ! bidx (ncols D) j
                                  < A ! bidx (length A) i ! bidx (ncols A) j) [0..<c]) [0..<r])
      | _ \<Rightarrow> Inl ValueError)"

text \<open>\<open>for row in clashes: if any(row): return True\<close>, then \<open>return False\<close>.\<close>

definition any_row :: "bool list list \<Rightarrow> bool" where
  "any_row cl = list_ex (\<lambda>r. list_ex (\<lambda>b. b) r) cl"

definition clash_found_vectorized_body :: "chain \<Rightarrow> chain \<Rightarrow> error + bool" where
  "clash_found_vectorized_body current_chain last_chain =
     (case np_concatenate (map dict_values (take (length last_chain - 2) last_chain)) of
        Inl e \<Rightarrow> Inl e
      | Inr last_chain_vector \<Rightarrow>
     (case np_concatenate
             (map dict_values (drop (length last_chain + 1) current_chain)) of
        Inl e \<Rightarrow> Inl e
      | Inr current_chain_vector \<Rightarrow>
     (case cdist last_chain_vector current_chain_vector of
        Inl e \<Rightarrow> Inl e
      | Inr distances \<Rightarrow>
          (let allowed_distances = add_outer VDW VDW;
               x = length distances;
               y = ncols distances;
               allowed_distances' =
                 map (take y) (np_tile allowed_distances (ceil4 x) (ceil4 y))
           in case np_less distances allowed_distances' of
                Inl e \<Rightarrow> Inl e
              | Inr clashes' \<Rightarrow> Inr (any_row clashes')))))"

text \<open>
  The method never reads or assigns an attribute of \<open>self\<close> (its variable \<open>clashes\<close> is a
  local, written \<open>clashes'\<close> here), so the validator is handed back as it came, also when an exception leaves
  the method.
\<close>

definition clash_found_vectorized ::
  "ClashValidator \<Rightarrow> chain \<Rightarrow> chain \<Rightarrow> (error + bool) \<times> ClashValidator" where
  "clash_found_vectorized self current_chain last_chain =
     (clash_found_vectorized_body current_chain last_chain, self)"

text \<open>
  The body of the inner loop of \<open>clash_found\<close>. \<open>Inr True\<close> stands for \<open>return True\<close>,
  \<open>Inr False\<close> for reaching the end of the body. The \<open>except ValueError\<close> branch repeats
  the comparison against \<open>allowed_distances[:-1].T\<close>; an exception raised there leaves
  the method.
\<close>

definition pair_try :: "vec3 list \<Rightarrow> vec3 list \<Rightarrow> error + bool" where
  "pair_try previous_coords new_coords =
     (case cdist previous_coords new_coords of
        Inl e \<Rightarrow> Inl e
      | Inr distances \<Rightarrow>
          (case np_less distances (add_outer VDW VDW) of
             Inl e \<Rightarrow> Inl e
           | Inr clashes' \<Rightarrow> Inr (any_row clashes')))"

definition pair_except :: "vec3 list \<Rightarrow> vec3 list \<Rightarrow> error + bool" where
  "pair_except previous_coords new_coords =
     (case cdist previous_coords new_coords of
        Inl e \<Rightarrow> Inl e
      | Inr distances \<Rightarrow>
          (case np_less distances (transpose (butlast (add_outer VDW VDW))) of
             Inl e \<Rightarrow> Inl e
           | Inr clashes' \<Rightarrow> Inr (any_row clashes')))"

definition pair_check :: "vec3 list \<Rightarrow> vec3 list \<Rightarrow> error + bool" where
  "pair_check previous_coords new_coords =
     (case pair_try previous_coords new_coords of
        Inl ValueError \<Rightarrow> pair_except previous_coords new_coords
      | Inl e \<Rightarrow> Inl e
      | Inr b \<Rightarrow> Inr b)"

fun new_loop :: "chain \<Rightarrow> vec3 list \<Rightarrow> nat list \<Rightarrow> error + bool" where
  "new_loop current_chain previous_coords [] = Inr False"
| "new_loop current_chain previous_coords (new_index # rest) =
     (case pair_check previous_coords (dict_values (current_chain ! new_index)) of
        Inl e \<Rightarrow> Inl e
      | Inr True \<Rightarrow> Inr True
      | Inr False \<Rightarrow> new_loop current_chain previous_coords rest)"

fun seen_loop :: "chain \<Rightarrow> chain \<Rightarrow> nat list \<Rightarrow> error + bool" where
  "seen_loop current_chain last_chain [] = Inr False"
| "seen_loop current_chain last_chain (seen_index # rest) =
     (case new_loop current_chain (dict_values (last_chain ! seen_index))
             [length last_chain + 1 ..< length current_chain] of
        Inl e \<Rightarrow> Inl e
      | Inr True \<Rightarrow> Inr True
      | Inr False \<Rightarrow> seen_loop current_chain last_chain rest)"

definition clash_found_body :: "chain \<Rightarrow> chain \<Rightarrow> error + bool" where
  "clash_found_body current_chain last_chain =
     seen_loop current_chain last_chain [0 ..< length last_chain - 2]"

definition clash_found ::
  "ClashValidator \<Rightarrow> chain \<Rightarrow> chain \<Rightarrow> (error + bool) \<times> ClashValidator" where
  "clash_found self current_chain last_chain =
     (clash_found_body current_chain last_chain, self)"

text \<open>The windows both methods cut out of their arguments.\<close>

definition settled_group :: "chain \<Rightarrow> chain" where
  "settled_group last_chain = take (length last_chain - 2) last_chain"

definition new_group :: "chain \<Rightarrow> chain \<Rightarrow> chain" where
  "new_group current_chain last_chain = drop (length last_chain + 1) current_chain"

text \<open>
  Residues in canonical order: N, CA, C, O, the last residue of a group possibly without
  its O.
\<close>

definition full_residue :: "residue \<Rightarrow> bool" where
  "full_residue r \<longleftrightarrow> map fst r = [''N'', ''CA'', ''C'', ''O'']"

definition open_residue :: "residue \<Rightarrow> bool" where
  "open_residue r \<longleftrightarrow> map fst r = [''N'', ''CA'', ''C'']"

definition settled_canonical :: "chain \<Rightarrow> bool" where
  "settled_canonical g \<longleftrightarrow> g \<noteq> [] \<and> list_all full_residue g"

definition new_canonical :: "chain \<Rightarrow> bool" where
  "new_canonical g \<longleftrightarrow>
     g \<noteq> [] \<and> list_all full_residue (butlast g) \<and> (full_residue (last g) \<or> open_residue (last g))"

text \<open>
  The two loops of \<open>clash_found\<close> once more, running over the residues themselves instead
  of over their indices; used to relate the method to the windows it reads.
\<close>

fun new_scan :: "vec3 list \<Rightarrow> chain \<Rightarrow> error + bool" where
  "new_scan previous_coords [] = Inr False"
| "new_scan previous_coords (r # rs) =
     (case pair_check previous_coords (dict_values r) of
        Inl e \<Rightarrow> Inl e
      | Inr True \<Rightarrow> Inr True
      | Inr False \<Rightarrow> new_scan previous_coords rs)"

fun seen_scan :: "chain \<Rightarrow> chain \<Rightarrow> error + bool" where
  "seen_scan [] new = Inr False"
| "seen_scan (s # ss) new =
     (case new_scan (dict_values s) new of
        Inl e \<Rightarrow> Inl e
      | Inr True \<Rightarrow> Inr True
      | Inr False \<Rightarrow> seen_scan ss new)"

definition residue_pair_closer :: "vec3 list \<Rightarrow> vec3 list \<Rightarrow> bool" where
  "residue_pair_closer P Q \<longleftrightarrow>
     (\<exists>a<length P. \<exists>b<length Q. euclidean (P ! a) (Q ! b) < double_of (VDW ! a + VDW ! b))"

definition some_pair_closer :: "chain \<Rightarrow> chain \<Rightarrow> bool" where
  "some_pair_closer settled new \<longleftrightarrow>
     (\<exists>P\<in>set settled. \<exists>Q\<in>set new.
        residue_pair_closer (dict_values P) (dict_values Q))"

text \<open>Example residues: the atoms lie on the x axis, \<open>d\<close> apart, starting at \<open>x\<close>.\<close>

abbreviation (input) residue4 :: "real \<Rightarrow> real \<Rightarrow> residue" where
  "residue4 x d \<equiv>
     [(''N'', (x, 0, 0)), (''CA'', (x + d, 0, 0)), (''C'', (x + 2 * d, 0, 0)),
      (''O'', (x + 3 * d, 0, 0))]"

abbreviation (input) residue3 :: "real \<Rightarrow> real \<Rightarrow> residue" where
  "residue3 x d \<equiv>
     [(''N'', (x, 0, 0)), (''CA'', (x + d, 0, 0)), (''C'', (x + 2 * d, 0, 0))]"

section \<open>cli_build.py: the build loop\<close>

text \<open>
  The module \<open>idpconfgen.core.definitions\<close> is not among the sources: the constants that
  \<open>main\<close> imports from it are the fields of a record handed to the builder.
\<close>

record definitions =
  distance_N_CA :: real
  distance_CA_C :: real
  distance_C_Np1 :: real
  average_N_CA_C :: real
  average_CA_C_Np1 :: real
  average_Cm1_N_CA :: real

text \<open>
  \<open>make_coord_Q\<close> is imported from libcalc but is not defined in the libcalc at hand: the
  build loop takes it as a parameter, with the arguments in the order of its call
  \<open>make_coord_Q(v1, v2, v3, distance, bend, torsion)\<close>.
\<close>

type_synonym placer = "vec3 \<Rightarrow> vec3 \<Rightarrow> vec3 \<Rightarrow> real \<Rightarrow> real \<Rightarrow> real \<Rightarrow> vec3"

definition bond_lens :: "definitions \<Rightarrow> real list" where
  "bond_lens D = [distance_C_Np1 D, distance_N_CA D, distance_CA_C D]"

definition bond_bend :: "definitions \<Rightarrow> real list" where
  "bond_bend D = [pi - average_CA_C_Np1 D, pi - average_Cm1_N_CA D, pi - average_N_CA_C D]"

text \<open>
  \<open>next\<close> on an \<open>itertools.cycle\<close> over a list: the state of the iterator is the number
  of values it has handed out.
\<close>

definition cycle_next :: "'a list \<Rightarrow> nat \<Rightarrow> 'a \<times> nat" where
  "cycle_next xs n = (xs ! (n mod length xs), n + 1)"

text \<open>
  The state of the loop: the backbone buffer \<open>bb\<close>, the cursor \<open>i\<close> (here \<open>idx\<close>) and the
  positions of the two cycles.
\<close>

record builder =
  bb :: "vec3 list"
  idx :: nat
  lens_pos :: nat
  bend_pos :: nat

text \<open>
  Indexing the first axis of an array of \<open>n\<close> rows: negative indices count from the end,
  anything outside \<open>-n \<dots> n - 1\<close> raises IndexError (None).
\<close>

definition np_index :: "nat \<Rightarrow> int \<Rightarrow> nat option" where
  "np_index n k =
     (if 0 \<le> k \<and> k < int n then Some (nat k)
      else if - int n \<le> k \<and> k < 0 then Some (nat (int n + k))
      else None)"

text \<open>
  The body of \<open>for torsion in agls\<close>. The three reads, the two \<open>next\<close> calls and the call
  of \<open>make_coord_Q\<close> come before the store into \<open>bb[i, :]\<close>, so an IndexError raised by
  the store leaves the cycles advanced and the buffer and the cursor as they were.
\<close>

definition place_step :: "placer \<Rightarrow> definitions \<Rightarrow> builder \<Rightarrow> real \<Rightarrow> error option \<times> builder" where
  "place_step mk D s torsion =
     (let n = length (bb s) in
      case (np_index n (int (idx s) - 3), np_index n (int (idx s) - 2),
            np_index n (int (idx s) - 1)) of
        (Some a, Some b, Some c) \<Rightarrow>
          (let (len, lp) = cycle_next (bond_lens D) (lens_pos s);
               (bend, bp) = cycle_next (bond_bend D) (bend_pos s);
               coord = mk (bb s ! a) (bb s ! b) (bb s ! c) len bend torsion;
               s1 = s\<lparr>lens_pos := lp, bend_pos := bp\<rparr>
           in case np_index n (int (idx s)) of
                Some j \<Rightarrow> (None, s1\<lparr>bb := (bb s)[j := coord], idx := idx s + 1\<rparr>)
              | None \<Rightarrow> (Some IndexError, s1))
      | _ \<Rightarrow> (Some IndexError, s))"

fun fragment_loop :: "placer \<Rightarrow> definitions \<Rightarrow> real list \<Rightarrow> builder \<Rightarrow> error option \<times> builder" where
  "fragment_loop mk D [] s = (None, s)"
| "fragment_loop mk D (torsion # rest) s =
     (case place_step mk D s torsion of
        (Some e, s') \<Rightarrow> (Some e, s')
      | (None, s') \<Rightarrow> fragment_loop mk D rest s')"

text \<open>
  \<open>angles[RC(slices), :].ravel()[1:-2]\<close>. A slice is a pair of a start and a stop row,
  \<open>angles\<close> a list of rows; \<open>random.choice\<close> raises IndexError on an empty list and
  otherwise returns the element at a random position, taken here from the value \<open>r\<close>
  of the random source.
\<close>

definition RC :: "nat \<Rightarrow> 'a list \<Rightarrow> error + 'a" where
  "RC r xs = (if xs = [] then Inl IndexError else Inr (xs ! (r mod length xs)))"

definition np_rows :: "'a list \<Rightarrow> nat \<times> nat \<Rightarrow> 'a list" where
  "np_rows arr sl = drop (fst sl) (take (snd sl) arr)"

definition ravel :: "'a list list \<Rightarrow> 'a list" where
  "ravel arr = concat arr"

definition agls :: "real list list \<Rightarrow> real list" where
  "agls fragment = (let flat = ravel fragment in drop 1 (take (length flat - 2) flat))"

text \<open>
  \<open>while True\<close>: one fragment is drawn per round, with the \<open>k\<close>-th value of the random
  source \<open>rnd\<close>; the loop is left only through the IndexError of a store beyond the
  buffer. A run that never leaves the loop has the value None.
\<close>

partial_function (option) growth_loop ::
  "placer \<Rightarrow> definitions \<Rightarrow> real list list \<Rightarrow> (nat \<times> nat) list \<Rightarrow> (nat \<Rightarrow> nat) \<Rightarrow> nat
     \<Rightarrow> builder \<Rightarrow> (error + builder) option" where
  "growth_loop mk D angles slices rnd k s =
     (case RC (rnd k) slices of
        Inl e \<Rightarrow> Some (Inl e)
      | Inr sl \<Rightarrow>
          (case fragment_loop mk D (agls (np_rows angles sl)) s of
             (Some IndexError, s') \<Rightarrow> Some (Inr s')
           | (Some e, s') \<Rightarrow> Some (Inl e)
           | (None, s') \<Rightarrow> growth_loop mk D angles slices rnd (k + 1) s'))"

text \<open>
  The seed: \<open>bb\<close> starts as \<open>nbb\<close> rows of zeros, atom 1 goes on the x axis and atom 2 is
  placed from a dummy point, atom 0 and atom 1. A buffer of fewer than three rows makes
  one of the two stores raise IndexError, which \<open>main\<close> does not catch.
\<close>

definition seed :: "placer \<Rightarrow> definitions \<Rightarrow> nat \<Rightarrow> error + builder" where
  "seed mk D nbb =
     (let bb0 = replicate nbb (0, 0, 0) in
      if nbb \<le> 1 then Inl IndexError
      else let bb1 = bb0[1 := (distance_N_CA D, 0, 0)] in
      if nbb \<le> 2 then Inl IndexError
      else let bb2 = bb1[2 := mk (0, distance_N_CA D, 0) (bb1 ! 0) (bb1 ! 1)
                               (distance_CA_C D) (pi - average_N_CA_C D) 0]
      in Inr \<lparr>bb = bb2, idx = 3, lens_pos = 0, bend_pos = 0\<rparr>)"

text \<open>
  \<open>generate_atom_labels\<close> with the table \<open>atom_labels\<close> of \<open>core.definitions\<close> as a
  parameter, and the number of rows of \<open>bb\<close>: the labels N, CA and C.
\<close>

fun generate_atom_labels :: "(char \<rightharpoonup> string list) \<Rightarrow> string \<Rightarrow> error + string list" where
  "generate_atom_labels AL [] = Inr []"
| "generate_atom_labels AL (residue # rest) =
     (case AL residue of
        None \<Rightarrow> Inl KeyError
      | Some ls \<Rightarrow>
          (case generate_atom_labels AL rest of
             Inl e \<Rightarrow> Inl e
           | Inr labels \<Rightarrow> Inr (ls @ labels)))"

definition bb_mask :: "string \<Rightarrow> bool" where
  "bb_mask label \<longleftrightarrow> label \<in> set [''N'', ''CA'', ''C'']"

text \<open>
  The part of \<open>main\<close> from the atom labels to the end of the loop.
  \<open>generate_residue_numbers\<close> reads \<open>atom_labels[0]\<close>, an IndexError for an empty sequence.
\<close>

definition main_build ::
  "placer \<Rightarrow> definitions \<Rightarrow> (char \<rightharpoonup> string list) \<Rightarrow> real list list \<Rightarrow> (nat \<times> nat) list
     \<Rightarrow> (nat \<Rightarrow> nat) \<Rightarrow> string \<Rightarrow> (error + builder) option" where
  "main_build mk D AL angles slices rnd input_seq =
     (case generate_atom_labels AL input_seq of
        Inl e \<Rightarrow> Some (Inl e)
      | Inr labels \<Rightarrow>
          if labels = [] then Some (Inl IndexError)
          else (case seed mk D (length (filter bb_mask labels)) of
                  Inl e \<Rightarrow> Some (Inl e)
                | Inr s \<Rightarrow> growth_loop mk D angles slices rnd 0 s))"

text \<open>
  What one run of the loop leaves in the buffer: the atoms before the old cursor are
  untouched, and every slot from the old cursor up to the new one holds the atom placed
  from the three slots before it, with the bond length and bend of its turn in the cycles.
\<close>

definition placed_between :: "placer \<Rightarrow> definitions \<Rightarrow> builder \<Rightarrow> builder \<Rightarrow> bool" where
  "placed_between mk D s s' \<longleftrightarrow>
     length (bb s') = length (bb s) \<and> idx s \<le> idx s' \<and> idx s' \<le> length (bb s')
     \<and> (\<forall>j<idx s. bb s' ! j = bb s ! j)
     \<and> (\<forall>j. idx s \<le> j \<and> j < idx s' \<longrightarrow>
           (\<exists>t. bb s' ! j =
              mk (bb s' ! (j - 3)) (bb s' ! (j - 2)) (bb s' ! (j - 1))
                 (bond_lens D ! ((lens_pos s + (j - idx s)) mod 3))
                 (bond_bend D ! ((bend_pos s + (j - idx s)) mod 3)) t))"

text \<open>
  The cycle as the specification lists it: C to N with the bend from C-N-CA, N to CA with
  the bend from N-CA-C, CA to C with the bend from CA-C-N.
\<close>

definition spec_cycle :: "definitions \<Rightarrow> (real \<times> real) list" where
  "spec_cycle D =
     [(distance_C_Np1 D, pi - average_Cm1_N_CA D),
      (distance_N_CA D, pi - average_N_CA_C D),
      (distance_CA_C D, pi - average_CA_C_Np1 D)]"

text \<open>
  Modelled from the spec: \<open>make_coord_Q\<close> is missing from the sources. The specification's
  \<open>placeAtom(theta, phi, distance, parent, xAxisPoint, yAxisPoint)\<close> is \<open>make_coord\<close> of
  libcalc, called by the builder with the bend as \<open>theta\<close>, the torsion as \<open>phi\<close> and the
  three most recently placed atoms, the most recent one as parent. It stands in for the
  parameter of the build loop in examples only. \<open>make_coord\<close> has a value for all
  arguments (lemma \<open>make_coord_defined\<close> below), which \<open>the\<close> takes out.
\<close>

definition make_coord_placer :: placer where
  "make_coord_placer v1 v2 v3 distance bend torsion =
     the (make_coord bend torsion distance v3 v2 v1)"

text \<open>
  Examples: a placer that returns the bond length, bend and torsion it was called with,
  and a set of constants.
\<close>

abbreviation (input) probe_placer :: placer where
  "probe_placer v1 v2 v3 distance bend torsion \<equiv> (distance, bend, torsion)"

abbreviation (input) example_definitions :: definitions where
  "example_definitions \<equiv>
     \<lparr>distance_N_CA = 1.46, distance_CA_C = 1.53, distance_C_Np1 = 1.33,
      average_N_CA_C = 1.94, average_CA_C_Np1 = 2.03, average_Cm1_N_CA = 2.12\<rparr>"

section \<open>libcalc: torsion angles\<close>

text \<open>\<open>np.linalg.norm\<close> of a two-dimensional array, without an axis: the Frobenius norm.\<close>

definition frobenius :: "vec3 list \<Rightarrow> real" where
  "frobenius arr = sqrt (sum_list (map (\<lambda>v. dot v v) arr))"

text \<open>\<open>np.arctan2(y, x)\<close> on real numbers.\<close>

definition arctan2 :: "real \<Rightarrow> real \<Rightarrow> real" where
  "arctan2 y x =
     (if 0 < x then arctan (y / x)
      else if x < 0 \<and> 0 \<le> y then arctan (y / x) + pi
      else if x < 0 then arctan (y / x) - pi
      else if 0 < y then pi / 2
      else if y < 0 then - (pi / 2)
      else 0)"

text \<open>
  \<open>calc_torsion_angles(coords)\<close>. The first assertion fails for fewer than four points;
  the second one holds for every list of three-dimensional points. Both divisions are by
  the norm of a whole array. Where such a norm is zero numpy does not raise: it divides
  by zero and every angle comes out as nan, written None here.
\<close>

definition calc_torsion_angles :: "vec3 list \<Rightarrow> error + real option list" where
  "calc_torsion_angles coords =
     (if \<not> 3 < length coords then Inl AssertionError
      else
        let q_vecs = map2 vsub (tl coords) (butlast coords);
            crosses = map2 cross (butlast q_vecs) (tl q_vecs);
            bonds = tl (butlast q_vecs)
        in if frobenius crosses = 0 \<or> frobenius bonds = 0
           then Inr (replicate (length coords - 3) None)
           else
             let unitary = map (\<lambda>c. sdiv c (frobenius crosses)) crosses;
                 u0 = butlast unitary;
                 u1 = tl unitary;
                 u3 = map (\<lambda>q. sdiv q (frobenius bonds)) bonds;
                 u2 = map2 cross u3 u1;
                 cos_theta = map2 dot u0 u1;
                 sin_theta = map2 dot u0 u2
             in Inr (map2 (\<lambda>sn cs. Some (- arctan2 sn cs)) sin_theta cos_theta))"

text \<open>
  The dihedral angle of four consecutive atoms as the specification defines it: bond
  vectors \<open>q\<close>, unit normals \<open>normalize(q_k \<times> q_(k+1))\<close> of the two planes, the unit
  vector of the middle bond, and the sign resolved by \<open>atan2\<close> as in the code.
\<close>

definition normalize3 :: "vec3 \<Rightarrow> vec3" where
  "normalize3 v = sdiv v (norm3 v)"

definition dihedral_spec :: "vec3 \<Rightarrow> vec3 \<Rightarrow> vec3 \<Rightarrow> vec3 \<Rightarrow> real" where
  "dihedral_spec p0 p1 p2 p3 =
     (let q0 = vsub p1 p0;
          q1 = vsub p2 p1;
          q2 = vsub p3 p2;
          u0 = normalize3 (cross q0 q1);
          u1 = normalize3 (cross q1 q2);
          u3 = normalize3 q1;
          u2 = cross u3 u1
      in - arctan2 (dot u0 u2) (dot u0 u1))"

section \<open>Facts about vectors\<close>

lemma norm3_nonneg: "0 \<le> norm3 v"
  by (cases v) simp

lemma sum_three_squares_zero:
  fixes a b c :: real
  shows "a * a + b * b + c * c = 0 \<longleftrightarrow> a = 0 \<and> b = 0 \<and> c = 0"
proof
  assume h: "a * a + b * b + c * c = 0"
  have "0 \<le> a * a" "0 \<le> b * b" "0 \<le> c * c" by simp_all
  with h have "a * a = 0" "b * b = 0" "c * c = 0" by linarith+
  then show "a = 0 \<and> b = 0 \<and> c = 0" by simp
qed simp

lemma norm3_zero_iff: "norm3 v = 0 \<longleftrightarrow> v = zero3"
  by (cases v) (simp add: zero3_def sum_three_squares_zero)

lemma norm3_pos_iff: "0 < norm3 v \<longleftrightarrow> v \<noteq> zero3"
  using norm3_nonneg [of v] norm3_zero_iff [of v] by linarith





lemma cross_zero_right: "cross v zero3 = zero3"
  by (cases v) (simp add: zero3_def)



lemma np_divide_guarded:
  "(if 0 < norm3 v then np_divide v (norm3 v) else Some v)
     = Some (if 0 < norm3 v then sdiv v (norm3 v) else v)"
  by (simp add: np_divide_def del: norm3.simps)



section \<open>Facts about the clash predicates\<close>

lemma length_concat_replicate: "length (concat (replicate n xs)) = n * length xs"
  by (induction n) simp_all

lemma concat_replicate_nth:
  "i < n * length xs \<Longrightarrow> concat (replicate n xs) ! i = xs ! (i mod length xs)"
proof (induction n arbitrary: i)
  case 0
  then show ?case by simp
next
  case (Suc n)
  show ?case
  proof (cases "i < length xs")
    case True
    then show ?thesis by (simp add: nth_append)
  next
    case False
    then have "i - length xs < n * length xs" using Suc.prems by simp
    then have "concat (replicate n xs) ! (i - length xs) = xs ! ((i - length xs) mod length xs)"
      by (rule Suc.IH)
    moreover have "(i - length xs) mod length xs = i mod length xs"
      using False by (simp add: le_mod_geq)
    ultimately show ?thesis using False by (simp add: nth_append)
  qed
qed

lemma cdist_ok:
  "XA \<noteq> [] \<Longrightarrow> XB \<noteq> [] \<Longrightarrow> cdist XA XB = Inr (map (\<lambda>a. map (\<lambda>b. euclidean a b) XB) XA)"
  by (simp add: cdist_def)

lemma ncols_map_rows: "XA \<noteq> [] \<Longrightarrow> ncols (map (\<lambda>a. map (f a) XB) XA) = length XB"
  by (cases XA) (simp_all add: ncols_def)

lemma any_row_map:
  "any_row (map (\<lambda>i. map (\<lambda>j. P i j) [0..<c]) [0..<r]) \<longleftrightarrow> (\<exists>i<r. \<exists>j<c. P i j)"
  unfolding any_row_def list_ex_iff by (simp add: Bex_def) 

lemma bidx_id: "k < n \<Longrightarrow> bidx n k = k"
  by (simp add: bidx_def)

lemma np_less_same_shape:
  assumes "length D = length A" "ncols D = ncols A"
  shows "\<exists>cl. np_less D A = Inr cl
           \<and> (any_row cl \<longleftrightarrow> (\<exists>i<length D. \<exists>j<ncols D. D ! i ! j < A ! i ! j))"
proof -
  let ?cl = "map (\<lambda>i. map (\<lambda>j. D ! bidx (length D) i ! bidx (ncols D) j
                 < A ! bidx (length A) i ! bidx (ncols A) j) [0..<ncols D]) [0..<length D]"
  have "np_less D A = Inr ?cl"
    using assms by (simp add: np_less_def bdim_def)
  moreover have "?cl = map (\<lambda>i. map (\<lambda>j. D ! i ! j < A ! i ! j) [0..<ncols D]) [0..<length D]"
    using assms by (intro map_cong refl) (simp_all add: bidx_id)
  ultimately show ?thesis by (simp add: any_row_map)
qed

lemma length_np_tile: "length (np_tile M r c) = r * length M"
  by (simp add: np_tile_def length_concat_replicate)

lemma np_tile_row:
  assumes "i < r * length M"
  shows "np_tile M r c ! i = concat (replicate c (M ! (i mod length M)))"
proof -
  have pos: "0 < length M" using assms by (cases M) simp_all
  have "np_tile M r c ! i = map (\<lambda>r. concat (replicate c r)) M ! (i mod length M)"
    unfolding np_tile_def using assms by (simp add: concat_replicate_nth)
  then show ?thesis using pos by simp
qed

lemma floor_log2_1_2:
  fixes x :: real
  assumes "1 \<le> x" "x < 2"
  shows "\<lfloor>log 2 x\<rfloor> = 0"
  using assms floor_log_eq_powr_iff [of x 2 0] by simp

lemma floor_log2_2_4:
  fixes x :: real
  assumes "2 \<le> x" "x < 4"
  shows "\<lfloor>log 2 x\<rfloor> = 1"
proof -
  have "(2::real) powr (of_int 1 + 1) = 4"
    using powr_numeral [of 2 "Num.Bit0 Num.One"] by simp
  then show ?thesis using assms floor_log_eq_powr_iff [of x 2 1] by simp
qed

text \<open>Between 1 and 2 doubles are \<open>2 ^ 52\<close> to the unit, between 2 and 4 they are \<open>2 ^ 51\<close>.\<close>

lemma double_of_1_2:
  assumes "1 \<le> x" "x < 2"
  shows "double_of x = of_int (rne (x * 2 ^ 52)) / 2 ^ 52"
  using assms floor_log2_1_2 [OF assms]
  by (simp add: double_of_def Let_def pow2_def)

lemma double_of_2_4:
  assumes "2 \<le> x" "x < 4"
  shows "double_of x = of_int (rne (x * 2 ^ 51)) / 2 ^ 51"
  using assms floor_log2_2_4 [OF assms]
  by (simp add: double_of_def Let_def pow2_def)

lemma VDW_values:
  "VDW = [6980579422424269 / 2 ^ 52, 7656119366529843 / 2 ^ 52, 7656119366529843 / 2 ^ 52,
          6845471433603154 / 2 ^ 52]"
  by (simp add: VDW_def double_of_1_2 rne_def Let_def)



lemma length_VDW: "length VDW = 4"
  by (simp add: VDW_def)

lemma length_add_outer: "length (add_outer xs ys) = length xs"
  by (simp add: add_outer_def)

lemma add_outer_row:
  "a < length xs \<Longrightarrow> add_outer xs ys ! a = map (\<lambda>b. double_of (xs ! a + b)) ys"
  by (simp add: add_outer_def)

lemma allowed_tile_entry:
  assumes "i < r * 4" "j < c * 4"
  shows "np_tile (add_outer VDW VDW) r c ! i ! j = double_of (VDW ! (i mod 4) + VDW ! (j mod 4))"
proof -
  have row: "np_tile (add_outer VDW VDW) r c ! i
      = concat (replicate c (map (\<lambda>b. double_of (VDW ! (i mod 4) + b)) VDW))"
    using assms(1) by (simp add: np_tile_row length_add_outer length_VDW add_outer_row)
  show ?thesis
    unfolding row using assms(2) by (simp add: concat_replicate_nth length_VDW)
qed

lemma length_allowed_tile_row:
  assumes "i < r * 4"
  shows "length (np_tile (add_outer VDW VDW) r c ! i) = c * 4"
  using assms
  by (simp add: np_tile_row length_add_outer length_VDW add_outer_row length_concat_replicate)

lemma ceil4_bound: "y \<le> ceil4 y * 4"
  by (simp add: ceil4_def)

lemma ceil4_mult: "ceil4 (4 * n) = n"
  by (simp add: ceil4_def)

lemma np_concatenate_ok:
  "arrs \<noteq> [] \<Longrightarrow> \<forall>a\<in>set arrs. a \<noteq> [] \<Longrightarrow> np_concatenate arrs = Inr (concat arrs)"
  by (simp add: np_concatenate_def list_ex_iff)

text \<open>The comparison made by the batched method once both groups are in one array each.\<close>

lemma batched_compare:
  assumes x: "length S = 4 * n" "0 < n" and y: "N \<noteq> []"
  shows "(case cdist S N of
        Inl e \<Rightarrow> Inl e
      | Inr distances \<Rightarrow>
          (let allowed_distances = add_outer VDW VDW;
               x = length distances;
               y = ncols distances;
               allowed_distances' =
                 map (take y) (np_tile allowed_distances (ceil4 x) (ceil4 y))
           in case np_less distances allowed_distances' of
                Inl e \<Rightarrow> Inl e
              | Inr clashes' \<Rightarrow> Inr (any_row clashes')))
     = Inr (\<exists>i<length S. \<exists>j<length N.
              euclidean (S ! i) (N ! j) < double_of (VDW ! (i mod 4) + VDW ! (j mod 4)))"
proof -
  have S: "S \<noteq> []" using x by auto
  define D where "D = map (\<lambda>a. map (\<lambda>b. euclidean a b) N) S"
  define A where "A = map (take (length N)) (np_tile (add_outer VDW VDW) n (ceil4 (length N)))"
  have cd: "cdist S N = Inr D" using S y by (simp add: cdist_ok D_def)
  have lD: "length D = length S" by (simp add: D_def)
  have cD: "ncols D = length N" using S by (simp add: D_def ncols_map_rows)
  have lA: "length A = length S" using x by (simp add: A_def length_np_tile length_add_outer length_VDW)
  have rowA: "A ! i = take (length N) (np_tile (add_outer VDW VDW) n (ceil4 (length N)) ! i)"
    if "i < length S" for i
    using that x by (simp add: A_def length_np_tile length_add_outer length_VDW)
  have cA: "ncols A = length N"
  proof -
    have "A \<noteq> []" using lA S by auto
    then have "ncols A = length (A ! 0)" by (cases A) (simp_all add: ncols_def)
    also have "\<dots> = length N"
      using rowA [of 0] S x ceil4_bound [of "length N"]
      by (simp add: length_allowed_tile_row)
    finally show ?thesis .
  qed
  have entry: "A ! i ! j = double_of (VDW ! (i mod 4) + VDW ! (j mod 4))" if "i < length S" "j < length N" for i j
  proof -
    have "j < ceil4 (length N) * 4" using that(2) ceil4_bound [of "length N"] by simp
    then show ?thesis using that x by (simp add: rowA allowed_tile_entry)
  qed
  obtain cl where cl: "np_less D A = Inr cl"
    "any_row cl \<longleftrightarrow> (\<exists>i<length D. \<exists>j<ncols D. D ! i ! j < A ! i ! j)"
    using np_less_same_shape [of D A] lD lA cD cA by auto
  have "any_row cl \<longleftrightarrow> (\<exists>i<length S. \<exists>j<length N.
              euclidean (S ! i) (N ! j) < double_of (VDW ! (i mod 4) + VDW ! (j mod 4)))"
    unfolding cl(2) lD cD by (simp add: entry D_def cong: conj_cong)
  then show ?thesis
    using cd cl(1) x by (simp add: Let_def lD cD ceil4_mult A_def)
qed

lemma allowed_entry:
  "a < 4 \<Longrightarrow> b < 4 \<Longrightarrow> add_outer VDW VDW ! a ! b = double_of (VDW ! a + VDW ! b)"
  by (simp add: add_outer_row length_VDW)

lemma ncols_allowed: "ncols (add_outer VDW VDW) = 4"
  by (simp add: add_outer_def VDW_def ncols_def)

lemma allowed_T:
  "transpose (butlast (add_outer VDW VDW))
     = map (\<lambda>i. map (\<lambda>j. double_of (VDW ! j + VDW ! i)) [0..<3]) [0..<4]"
proof -
  let ?B = "butlast (add_outer VDW VDW)"
  have len: "length ?B = 3" by (simp add: length_add_outer length_VDW)
  have rows: "length (?B ! i) = 4" if "i < length ?B" for i
    using that len by (simp add: nth_butlast length_add_outer add_outer_row length_VDW)
  have "transpose ?B = map (\<lambda>i. map (\<lambda>j. ?B ! j ! i) [0..<length ?B]) [0..<4]"
    using len by (intro transpose_rectangle rows) auto
  also have "\<dots> = map (\<lambda>i. map (\<lambda>j. double_of (VDW ! j + VDW ! i)) [0..<3]) [0..<4]"
    unfolding len
    by (intro map_cong refl)
       (simp add: nth_butlast length_add_outer length_VDW allowed_entry)
  finally show ?thesis .
qed

lemma pair_check_canonical:
  assumes P: "length P = 4" and Q: "length Q = 4 \<or> length Q = 3"
  shows "pair_check P Q
     = Inr (\<exists>a<4. \<exists>b<length Q. euclidean (P ! a) (Q ! b) < double_of (VDW ! a + VDW ! b))"
proof -
  define D where "D = map (\<lambda>a. map (\<lambda>b. euclidean a b) Q) P"
  have ne: "P \<noteq> []" "Q \<noteq> []" using P Q by auto
  have cd: "cdist P Q = Inr D" using ne by (simp add: cdist_ok D_def)
  have lD: "length D = 4" by (simp add: D_def P)
  have cD: "ncols D = length Q" using ne by (simp add: D_def ncols_map_rows)
  have eD: "D ! a ! b = euclidean (P ! a) (Q ! b)" if "a < 4" "b < length Q" for a b
    using that P by (simp add: D_def)
  from Q show ?thesis
  proof
    assume Q4: "length Q = 4"
    obtain cl where cl: "np_less D (add_outer VDW VDW) = Inr cl"
      "any_row cl \<longleftrightarrow> (\<exists>i<length D. \<exists>j<ncols D. D ! i ! j < add_outer VDW VDW ! i ! j)"
      using np_less_same_shape [of D "add_outer VDW VDW"] lD cD Q4
      by (auto simp: length_add_outer length_VDW ncols_allowed)
    have "any_row cl \<longleftrightarrow> (\<exists>a<4. \<exists>b<length Q. euclidean (P ! a) (Q ! b) < double_of (VDW ! a + VDW ! b))"
      unfolding cl(2) lD cD using Q4 by (simp add: eD allowed_entry cong: conj_cong)
    then show ?thesis using cd cl(1) by (simp add: pair_check_def pair_try_def)
  next
    assume Q3: "length Q = 3"
    let ?T = "transpose (butlast (add_outer VDW VDW))"
    have tr: "pair_try P Q = Inl ValueError"
      using cd lD cD Q3
      by (simp add: pair_try_def np_less_def bdim_def length_add_outer length_VDW ncols_allowed)
    have lT: "length ?T = 4" by (simp add: allowed_T)
    have cT: "ncols ?T = 3" by (simp add: allowed_T ncols_def upt_rec [of 0])
    have eT: "?T ! a ! b = double_of (VDW ! a + VDW ! b)" if "a < 4" "b < 3" for a b
      using that by (simp add: allowed_T add.commute)
    obtain cl where cl: "np_less D ?T = Inr cl"
      "any_row cl \<longleftrightarrow> (\<exists>i<length D. \<exists>j<ncols D. D ! i ! j < ?T ! i ! j)"
      using np_less_same_shape [of D ?T] lD cD Q3 lT cT by auto
    have "any_row cl \<longleftrightarrow> (\<exists>a<4. \<exists>b<length Q. euclidean (P ! a) (Q ! b) < double_of (VDW ! a + VDW ! b))"
      unfolding cl(2) lD cD using Q3 by (simp add: eD eT cong: conj_cong)
    then show ?thesis using cd cl(1) tr by (simp add: pair_check_def pair_except_def)
  qed
qed

lemma new_loop_char:
  assumes "\<forall>j\<in>set js. pair_check prev (dict_values (cur ! j)) = Inr (F j)"
  shows "new_loop cur prev js = Inr (\<exists>j\<in>set js. F j)"
  using assms by (induction js) (auto split: bool.splits)

lemma seen_loop_char:
  assumes "\<forall>s\<in>set ss. new_loop cur (dict_values (lst ! s))
             [length lst + 1 ..< length cur] = Inr (G s)"
  shows "seen_loop cur lst ss = Inr (\<exists>s\<in>set ss. G s)"
  using assms by (induction ss) (auto split: bool.splits)

lemma ex_less_append4:
  assumes "length x = 4"
  shows "(\<exists>j<length (x @ c). Q ((x @ c) ! j) (j mod 4))
     \<longleftrightarrow> (\<exists>b<4. Q (x ! b) b) \<or> (\<exists>j<length c. Q (c ! j) (j mod 4))"
proof
  assume "\<exists>j<length (x @ c). Q ((x @ c) ! j) (j mod 4)"
  then obtain j where j: "j < length (x @ c)" "Q ((x @ c) ! j) (j mod 4)" by blast
  show "(\<exists>b<4. Q (x ! b) b) \<or> (\<exists>j<length c. Q (c ! j) (j mod 4))"
  proof (cases "j < 4")
    case True
    then have "Q (x ! j) j" using j(2) assms by (simp add: nth_append)
    then show ?thesis using True by blast
  next
    case False
    then have "Q (c ! (j - 4)) ((j - 4) mod 4)"
      using j(2) assms by (simp add: nth_append le_mod_geq)
    moreover have "j - 4 < length c" using j(1) False assms by simp
    ultimately show ?thesis by blast
  qed
next
  assume "(\<exists>b<4. Q (x ! b) b) \<or> (\<exists>j<length c. Q (c ! j) (j mod 4))"
  then show "\<exists>j<length (x @ c). Q ((x @ c) ! j) (j mod 4)"
  proof
    assume "\<exists>b<4. Q (x ! b) b"
    then obtain b where b: "b < 4" "Q (x ! b) b" by blast
    then have "b < length (x @ c)" "Q ((x @ c) ! b) (b mod 4)"
      using assms by (simp_all add: nth_append)
    then show ?thesis by blast
  next
    assume "\<exists>j<length c. Q (c ! j) (j mod 4)"
    then obtain j where j: "j < length c" "Q (c ! j) (j mod 4)" by blast
    then have "j + 4 < length (x @ c)" "Q ((x @ c) ! (j + 4)) ((j + 4) mod 4)"
      using assms by (simp_all add: nth_append)
    then show ?thesis by blast
  qed
qed

lemma ex_less_Cons:
  "(\<exists>q<length (x # xs). R ((x # xs) ! q)) \<longleftrightarrow> R x \<or> (\<exists>q<length xs. R (xs ! q))"
proof
  assume "\<exists>q<length (x # xs). R ((x # xs) ! q)"
  then obtain q where q: "q < length (x # xs)" "R ((x # xs) ! q)" by blast
  show "R x \<or> (\<exists>q<length xs. R (xs ! q))"
  proof (cases q)
    case 0
    then show ?thesis using q by simp
  next
    case (Suc k)
    then have "k < length xs" "R (xs ! k)" using q by simp_all
    then show ?thesis by blast
  qed
next
  assume "R x \<or> (\<exists>q<length xs. R (xs ! q))"
  then show "\<exists>q<length (x # xs). R ((x # xs) ! q)"
  proof
    assume "R x"
    then have "0 < length (x # xs)" "R ((x # xs) ! 0)" by simp_all
    then show ?thesis by blast
  next
    assume "\<exists>q<length xs. R (xs ! q)"
    then obtain q where "q < length xs" "R (xs ! q)" by blast
    then have "Suc q < length (x # xs)" "R ((x # xs) ! Suc q)" by simp_all
    then show ?thesis by blast
  qed
qed

text \<open>
  Blocks of four atoms, the last block possibly shorter: position \<open>j\<close> of the concatenation
  is atom \<open>j mod 4\<close> of its block.
\<close>

lemma blocks_ex:
  assumes "bs \<noteq> []" "list_all (\<lambda>b. length b = 4) (butlast bs)" "length (last bs) \<le> 4"
  shows "(\<exists>j<length (concat bs). Q (concat bs ! j) (j mod 4))
     \<longleftrightarrow> (\<exists>q<length bs. \<exists>b<length (bs ! q). Q (bs ! q ! b) b)"
  using assms
proof (induction bs)
  case Nil
  then show ?case by simp
next
  case (Cons x xs)
  show ?case
  proof (cases "xs = []")
    case True
    then have "length x \<le> 4" using Cons.prems by simp
    then have "(\<exists>j<length x. Q (x ! j) (j mod 4)) \<longleftrightarrow> (\<exists>b<length x. Q (x ! b) b)"
      by (intro ex_cong1) auto
    then show ?thesis using True by simp
  next
    case False
    then have x4: "length x = 4" and rest: "list_all (\<lambda>b. length b = 4) (butlast xs)"
      "length (last xs) \<le> 4"
      using Cons.prems by simp_all
    have IH: "(\<exists>j<length (concat xs). Q (concat xs ! j) (j mod 4))
        \<longleftrightarrow> (\<exists>q<length xs. \<exists>b<length (xs ! q). Q (xs ! q ! b) b)"
      using Cons.IH False rest by simp
    have "(\<exists>j<length (concat (x # xs)). Q (concat (x # xs) ! j) (j mod 4))
        \<longleftrightarrow> (\<exists>b<4. Q (x ! b) b) \<or> (\<exists>j<length (concat xs). Q (concat xs ! j) (j mod 4))"
      using ex_less_append4 [OF x4, of "concat xs" Q] by simp
    also have "\<dots> \<longleftrightarrow> (\<exists>b<length x. Q (x ! b) b)
         \<or> (\<exists>q<length xs. \<exists>b<length (xs ! q). Q (xs ! q ! b) b)"
      unfolding IH x4 ..
    also have "\<dots> \<longleftrightarrow> (\<exists>q<length (x # xs). \<exists>b<length ((x # xs) ! q). Q ((x # xs) ! q ! b) b)"
      by (rule ex_less_Cons [of x xs "\<lambda>r. \<exists>b<length r. Q (r ! b) b", symmetric])
    finally show ?thesis .
  qed
qed

lemma new_loop_scan: "new_loop cur prev js = new_scan prev (map ((!) cur) js)"
  by (induction js) (simp_all split: sum.splits bool.splits)

lemma seen_loop_scan:
  "seen_loop cur lst ss
     = seen_scan (map ((!) lst) ss) (map ((!) cur) [length lst + 1 ..< length cur])"
  by (induction ss) (simp_all add: new_loop_scan split: sum.splits bool.splits)

lemma settled_group_upt: "map ((!) lst) [0 ..< length lst - 2] = settled_group lst"
  unfolding settled_group_def by (rule map_upt_eqI) simp_all

lemma new_group_upt: "map ((!) cur) [length lst + 1 ..< length cur] = new_group cur lst"
  unfolding new_group_def by (rule map_upt_eqI) simp_all

lemma clash_found_body_groups:
  "clash_found_body cur lst = seen_scan (settled_group lst) (new_group cur lst)"
  unfolding clash_found_body_def seen_loop_scan settled_group_upt new_group_upt ..

lemma clash_found_vectorized_body_groups:
  "clash_found_vectorized_body cur lst =
     (case np_concatenate (map dict_values (settled_group lst)) of
        Inl e \<Rightarrow> Inl e
      | Inr last_chain_vector \<Rightarrow>
     (case np_concatenate (map dict_values (new_group cur lst)) of
        Inl e \<Rightarrow> Inl e
      | Inr current_chain_vector \<Rightarrow>
     (case cdist last_chain_vector current_chain_vector of
        Inl e \<Rightarrow> Inl e
      | Inr distances \<Rightarrow>
          (let allowed_distances = add_outer VDW VDW;
               x = length distances;
               y = ncols distances;
               allowed_distances' =
                 map (take y) (np_tile allowed_distances (ceil4 x) (ceil4 y))
           in case np_less distances allowed_distances' of
                Inl e \<Rightarrow> Inl e
              | Inr clashes' \<Rightarrow> Inr (any_row clashes')))))"
  unfolding clash_found_vectorized_body_def settled_group_def new_group_def ..

lemma full_residue_length: "full_residue r \<Longrightarrow> length (dict_values r) = 4"
proof -
  assume "full_residue r"
  then have "length (map fst r) = 4" by (simp add: full_residue_def)
  then show ?thesis by (simp add: dict_values_def)
qed

lemma open_residue_length: "open_residue r \<Longrightarrow> length (dict_values r) = 3"
proof -
  assume "open_residue r"
  then have "length (map fst r) = 3" by (simp add: open_residue_def)
  then show ?thesis by (simp add: dict_values_def)
qed

lemma new_scan_char:
  assumes "\<forall>r\<in>set rs. pair_check prev (dict_values r) = Inr (F r)"
  shows "new_scan prev rs = Inr (\<exists>r\<in>set rs. F r)"
  using assms by (induction rs) (auto split: bool.splits)

lemma seen_scan_char:
  assumes "\<forall>s\<in>set ss. new_scan (dict_values s) new = Inr (G s)"
  shows "seen_scan ss new = Inr (\<exists>s\<in>set ss. G s)"
  using assms by (induction ss) (auto split: bool.splits)

lemma new_canonical_lengths:
  assumes "new_canonical g" "r \<in> set g"
  shows "length (dict_values r) = 4 \<or> length (dict_values r) = 3"
proof -
  from assms(1) have ne: "g \<noteq> []" and bl: "list_all full_residue (butlast g)"
    and la: "full_residue (last g) \<or> open_residue (last g)"
    by (simp_all add: new_canonical_def)
  from ne have "g = butlast g @ [last g]" by simp
  then have "r \<in> set (butlast g) \<or> r = last g"
    using assms(2) by (metis Un_iff empty_iff insert_iff list.set(1) list.set(2) set_append)
  then show ?thesis
    using bl la by (auto simp: list_all_iff full_residue_length open_residue_length)
qed

lemma settled_canonical_lengths:
  assumes "settled_canonical g" "r \<in> set g"
  shows "length (dict_values r) = 4"
  using assms by (auto simp: settled_canonical_def list_all_iff full_residue_length)

lemma incremental_char:
  assumes "settled_canonical (settled_group lst)" "new_canonical (new_group cur lst)"
  shows "clash_found_body cur lst
     = Inr (some_pair_closer (settled_group lst) (new_group cur lst))"
proof -
  let ?S = "settled_group lst" and ?N = "new_group cur lst"
  have pc: "pair_check (dict_values P) (dict_values Q)
      = Inr (residue_pair_closer (dict_values P) (dict_values Q))"
    if "P \<in> set ?S" "Q \<in> set ?N" for P Q
    using pair_check_canonical [of "dict_values P" "dict_values Q"]
      settled_canonical_lengths [OF assms(1) that(1)]
      new_canonical_lengths [OF assms(2) that(2)]
    by (simp add: residue_pair_closer_def)
  have "new_scan (dict_values P) ?N
      = Inr (\<exists>Q\<in>set ?N. residue_pair_closer (dict_values P) (dict_values Q))"
    if "P \<in> set ?S" for P
    by (rule new_scan_char) (simp add: pc that)
  then have "seen_scan ?S ?N = Inr (\<exists>P\<in>set ?S. \<exists>Q\<in>set ?N.
       residue_pair_closer (dict_values P) (dict_values Q))"
    by (intro seen_scan_char) simp
  then show ?thesis by (simp add: clash_found_body_groups some_pair_closer_def)
qed

lemma length_concat_fours:
  "\<forall>b\<in>set bs. length b = 4 \<Longrightarrow> length (concat bs) = 4 * length bs"
  by (induction bs) simp_all

lemma ex_nth_set: "(\<exists>q<length xs. R (xs ! q)) \<longleftrightarrow> (\<exists>x\<in>set xs. R x)"
  by (metis in_set_conv_nth)

lemma settled_blocks:
  assumes "settled_canonical g"
  shows "map dict_values g \<noteq> []"
    and "\<forall>b\<in>set (map dict_values g). length b = 4"
    and "list_all (\<lambda>b. length b = 4) (butlast (map dict_values g))"
    and "length (last (map dict_values g)) \<le> 4"
proof -
  show ne: "map dict_values g \<noteq> []" using assms by (simp add: settled_canonical_def)
  show all: "\<forall>b\<in>set (map dict_values g). length b = 4"
    using settled_canonical_lengths [OF assms] by auto
  show "list_all (\<lambda>b. length b = 4) (butlast (map dict_values g))"
    using all in_set_butlastD [of _ "map dict_values g"] unfolding list_all_iff by blast
  show "length (last (map dict_values g)) \<le> 4"
    using all ne last_in_set [OF ne] by auto
qed

lemma new_blocks:
  assumes "new_canonical g"
  shows "map dict_values g \<noteq> []"
    and "\<forall>b\<in>set (map dict_values g). b \<noteq> []"
    and "list_all (\<lambda>b. length b = 4) (butlast (map dict_values g))"
    and "length (last (map dict_values g)) \<le> 4"
proof -
  have ne': "g \<noteq> []" using assms by (simp add: new_canonical_def)
  then show ne: "map dict_values g \<noteq> []" by simp
  show "\<forall>b\<in>set (map dict_values g). b \<noteq> []"
    using new_canonical_lengths [OF assms] by fastforce
  have "list_all (\<lambda>r. length (dict_values r) = 4) (butlast g)"
    using assms by (auto simp: new_canonical_def list_all_iff full_residue_length)
  then show "list_all (\<lambda>b. length b = 4) (butlast (map dict_values g))"
    by (simp add: map_butlast [symmetric] list_all_iff)
  show "length (last (map dict_values g)) \<le> 4"
    using new_canonical_lengths [OF assms last_in_set [OF ne']] ne'
    by (auto simp: last_map)
qed

lemma vectorized_index:
  assumes "settled_canonical (settled_group lst)" "new_canonical (new_group cur lst)"
  shows "clash_found_vectorized_body cur lst
     = Inr (\<exists>i<length (concat (map dict_values (settled_group lst))).
            \<exists>j<length (concat (map dict_values (new_group cur lst))).
              euclidean (concat (map dict_values (settled_group lst)) ! i)
                        (concat (map dict_values (new_group cur lst)) ! j)
                < double_of (VDW ! (i mod 4) + VDW ! (j mod 4)))"
proof -
  let ?sb = "map dict_values (settled_group lst)"
  let ?nb = "map dict_values (new_group cur lst)"
  note sb = settled_blocks [OF assms(1)] and nb = new_blocks [OF assms(2)]
  have cs: "np_concatenate ?sb = Inr (concat ?sb)"
    using sb(1,2) by (intro np_concatenate_ok) auto
  have cn: "np_concatenate ?nb = Inr (concat ?nb)"
    using nb(1,2) by (intro np_concatenate_ok) auto
  have lS: "length (concat ?sb) = 4 * length (settled_group lst)"
    using length_concat_fours [OF sb(2)] by simp
  have pos: "0 < length (settled_group lst)" using sb(1) by simp
  have nN: "concat ?nb \<noteq> []" using nb(1,2) by (cases ?nb) auto
  show ?thesis
    unfolding clash_found_vectorized_body_groups cs cn sum.case
    by (rule batched_compare [OF lS pos nN])
qed

lemma index_pairs_blocks:
  assumes "settled_canonical S" "new_canonical N"
  shows "(\<exists>i<length (concat (map dict_values S)). \<exists>j<length (concat (map dict_values N)).
              euclidean (concat (map dict_values S) ! i) (concat (map dict_values N) ! j)
                < double_of (VDW ! (i mod 4) + VDW ! (j mod 4)))
     \<longleftrightarrow> some_pair_closer S N"
proof -
  let ?sb = "map dict_values S" and ?nb = "map dict_values N"
  note sb = settled_blocks [OF assms(1)] and nb = new_blocks [OF assms(2)]
  have inner: "(\<exists>j<length (concat ?nb). euclidean s (concat ?nb ! j) < double_of (VDW ! a + VDW ! (j mod 4)))
      \<longleftrightarrow> (\<exists>q<length ?nb. \<exists>b<length (?nb ! q). euclidean s (?nb ! q ! b) < double_of (VDW ! a + VDW ! b))"
    for s a
    by (rule blocks_ex [OF nb(1) nb(3) nb(4), of "\<lambda>n b. euclidean s n < double_of (VDW ! a + VDW ! b)"])
  have "(\<exists>i<length (concat ?sb). \<exists>j<length (concat ?nb).
              euclidean (concat ?sb ! i) (concat ?nb ! j) < double_of (VDW ! (i mod 4) + VDW ! (j mod 4)))
     \<longleftrightarrow> (\<exists>p<length ?sb. \<exists>a<length (?sb ! p). \<exists>j<length (concat ?nb).
              euclidean (?sb ! p ! a) (concat ?nb ! j) < double_of (VDW ! a + VDW ! (j mod 4)))"
    by (rule blocks_ex [OF sb(1) sb(3) sb(4),
          of "\<lambda>s a. \<exists>j<length (concat ?nb). euclidean s (concat ?nb ! j)
                < double_of (VDW ! a + VDW ! (j mod 4))"])
  also have "\<dots> \<longleftrightarrow> (\<exists>p<length ?sb. \<exists>a<length (?sb ! p).
       \<exists>q<length ?nb. \<exists>b<length (?nb ! q).
          euclidean (?sb ! p ! a) (?nb ! q ! b) < double_of (VDW ! a + VDW ! b))"
    unfolding inner ..
  also have "\<dots> \<longleftrightarrow> (\<exists>p<length ?sb. \<exists>q<length ?nb. residue_pair_closer (?sb ! p) (?nb ! q))"
    unfolding residue_pair_closer_def by blast
  also have "\<dots> \<longleftrightarrow> (\<exists>P\<in>set ?sb. \<exists>Q\<in>set ?nb. residue_pair_closer P Q)"
    unfolding ex_nth_set [of ?nb] ex_nth_set [of ?sb "\<lambda>P. \<exists>Q\<in>set ?nb. residue_pair_closer P Q"] ..
  also have "\<dots> \<longleftrightarrow> some_pair_closer S N"
    by (simp add: some_pair_closer_def)
  finally show ?thesis .
qed

lemma vectorized_char:
  assumes "settled_canonical (settled_group lst)" "new_canonical (new_group cur lst)"
  shows "clash_found_vectorized_body cur lst
     = Inr (some_pair_closer (settled_group lst) (new_group cur lst))"
  unfolding vectorized_index [OF assms] index_pairs_blocks [OF assms] ..



lemma euclidean_x_axis: "euclidean (a, 0, 0) (b, 0, 0) = \<bar>a - b\<bar>"
  by (simp add: euclidean_def)

lemma ex_less_3: "(\<exists>i<3. P i) \<longleftrightarrow> P 0 \<or> P 1 \<or> P (2::nat)"
proof -
  have "i < 3 \<longleftrightarrow> i = 0 \<or> i = 1 \<or> i = 2" for i :: nat by arith
  then show ?thesis by auto
qed

lemma ex_less_4: "(\<exists>i<4. P i) \<longleftrightarrow> P 0 \<or> P 1 \<or> P 2 \<or> P (3::nat)"
proof -
  have "i < 4 \<longleftrightarrow> i = 0 \<or> i = 1 \<or> i = 2 \<or> i = 3" for i :: nat by arith
  then show ?thesis by auto
qed

section \<open>Facts about the build loop\<close>

lemma np_index_in: "k < n \<Longrightarrow> np_index n (int k) = Some k"
  by (simp add: np_index_def)

lemma np_index_back: "d \<le> k \<Longrightarrow> k - d < n \<Longrightarrow> np_index n (int k - int d) = Some (k - d)"
  by (simp add: np_index_def nat_diff_distrib' of_nat_diff)

lemma np_index_out: "n \<le> k \<Longrightarrow> np_index n (int k) = None"
  by (simp add: np_index_def)

lemma length_bond_lens: "length (bond_lens D) = 3"
  by (simp add: bond_lens_def)

lemma length_bond_bend: "length (bond_bend D) = 3"
  by (simp add: bond_bend_def)

lemma place_step_ok:
  assumes "3 \<le> idx s" "idx s < length (bb s)"
  shows "place_step mk D s torsion =
     (None, s\<lparr>lens_pos := lens_pos s + 1, bend_pos := bend_pos s + 1,
              bb := (bb s)[idx s := mk (bb s ! (idx s - 3)) (bb s ! (idx s - 2))
                     (bb s ! (idx s - 1)) (bond_lens D ! (lens_pos s mod 3))
                     (bond_bend D ! (bend_pos s mod 3)) torsion],
              idx := idx s + 1\<rparr>)"
proof -
  have a: "np_index (length (bb s)) (int (idx s) - 3) = Some (idx s - 3)"
    using np_index_back [of 3 "idx s" "length (bb s)"] assms by simp
  have b: "np_index (length (bb s)) (int (idx s) - 2) = Some (idx s - 2)"
    using np_index_back [of 2 "idx s" "length (bb s)"] assms by simp
  have c: "np_index (length (bb s)) (int (idx s) - 1) = Some (idx s - 1)"
    using np_index_back [of 1 "idx s" "length (bb s)"] assms by simp
  have d: "np_index (length (bb s)) (int (idx s)) = Some (idx s)"
    using assms by (simp add: np_index_in)
  show ?thesis
    by (simp add: place_step_def Let_def a b c d cycle_next_def length_bond_lens
        length_bond_bend)
qed

lemma place_step_full:
  assumes "3 \<le> idx s" "idx s = length (bb s)"
  shows "place_step mk D s torsion =
     (Some IndexError, s\<lparr>lens_pos := lens_pos s + 1, bend_pos := bend_pos s + 1\<rparr>)"
proof -
  have a: "np_index (length (bb s)) (int (idx s) - 3) = Some (idx s - 3)"
    using np_index_back [of 3 "idx s" "length (bb s)"] assms by simp
  have b: "np_index (length (bb s)) (int (idx s) - 2) = Some (idx s - 2)"
    using np_index_back [of 2 "idx s" "length (bb s)"] assms by simp
  have c: "np_index (length (bb s)) (int (idx s) - 1) = Some (idx s - 1)"
    using np_index_back [of 1 "idx s" "length (bb s)"] assms by simp
  have d: "np_index (length (bb s)) (int (idx s)) = None"
    using assms by (simp add: np_index_out)
  show ?thesis
    by (simp add: place_step_def Let_def a b c d cycle_next_def length_bond_lens
        length_bond_bend)
qed

lemma placed_between_same:
  "bb s' = bb s \<Longrightarrow> idx s' = idx s \<Longrightarrow> idx s \<le> length (bb s) \<Longrightarrow> placed_between mk D s s'"
  unfolding placed_between_def by auto

lemma placed_between_trans:
  assumes a: "placed_between mk D s s1" and b: "placed_between mk D s1 s2"
    and lp: "lens_pos s1 = lens_pos s + (idx s1 - idx s)"
    and bp: "bend_pos s1 = bend_pos s + (idx s1 - idx s)"
  shows "placed_between mk D s s2"
proof -
  from a have a1: "length (bb s1) = length (bb s)" "idx s \<le> idx s1" "idx s1 \<le> length (bb s1)"
    and a2: "\<And>j. j < idx s \<Longrightarrow> bb s1 ! j = bb s ! j"
    and a3: "\<And>j. idx s \<le> j \<Longrightarrow> j < idx s1 \<Longrightarrow>
           \<exists>t. bb s1 ! j =
              mk (bb s1 ! (j - 3)) (bb s1 ! (j - 2)) (bb s1 ! (j - 1))
                 (bond_lens D ! ((lens_pos s + (j - idx s)) mod 3))
                 (bond_bend D ! ((bend_pos s + (j - idx s)) mod 3)) t"
    by (simp_all add: placed_between_def)
  from b have b1: "length (bb s2) = length (bb s1)" "idx s1 \<le> idx s2" "idx s2 \<le> length (bb s2)"
    and b2: "\<And>j. j < idx s1 \<Longrightarrow> bb s2 ! j = bb s1 ! j"
    and b3: "\<And>j. idx s1 \<le> j \<Longrightarrow> j < idx s2 \<Longrightarrow>
           \<exists>t. bb s2 ! j =
              mk (bb s2 ! (j - 3)) (bb s2 ! (j - 2)) (bb s2 ! (j - 1))
                 (bond_lens D ! ((lens_pos s1 + (j - idx s1)) mod 3))
                 (bond_bend D ! ((bend_pos s1 + (j - idx s1)) mod 3)) t"
    by (simp_all add: placed_between_def)
  have slot: "\<exists>t. bb s2 ! j =
              mk (bb s2 ! (j - 3)) (bb s2 ! (j - 2)) (bb s2 ! (j - 1))
                 (bond_lens D ! ((lens_pos s + (j - idx s)) mod 3))
                 (bond_bend D ! ((bend_pos s + (j - idx s)) mod 3)) t"
    if j: "idx s \<le> j" "j < idx s2" for j
  proof (cases "j < idx s1")
    case True
    then have "bb s2 ! j = bb s1 ! j" "bb s2 ! (j - 3) = bb s1 ! (j - 3)"
      "bb s2 ! (j - 2) = bb s1 ! (j - 2)" "bb s2 ! (j - 1) = bb s1 ! (j - 1)"
      by (simp_all add: b2)
    then show ?thesis using a3 [OF j(1) True] by simp
  next
    case False
    then have "lens_pos s1 + (j - idx s1) = lens_pos s + (j - idx s)"
      "bend_pos s1 + (j - idx s1) = bend_pos s + (j - idx s)"
      using lp bp a1(2) by simp_all
    then show ?thesis using b3 [of j] False j(2) by simp
  qed
  show ?thesis
    unfolding placed_between_def
    using a1 b1 a2 b2 slot by auto
qed

lemma placed_between_step:
  assumes "3 \<le> idx s" "idx s < length (bb s)"
  shows "placed_between mk D s
     (s\<lparr>lens_pos := lp, bend_pos := bp,
        bb := (bb s)[idx s := mk (bb s ! (idx s - 3)) (bb s ! (idx s - 2))
                     (bb s ! (idx s - 1)) (bond_lens D ! (lens_pos s mod 3))
                     (bond_bend D ! (bend_pos s mod 3)) torsion],
        idx := idx s + 1\<rparr>)"
proof -
  let ?v = "mk (bb s ! (idx s - 3)) (bb s ! (idx s - 2))
                     (bb s ! (idx s - 1)) (bond_lens D ! (lens_pos s mod 3))
                     (bond_bend D ! (bend_pos s mod 3)) torsion"
  let ?b = "(bb s)[idx s := ?v]"
  have old: "?b ! j = bb s ! j" if "j < idx s" for j using that by simp
  have new: "?b ! idx s = ?v" using assms(2) by simp
  have slot: "\<exists>t. ?b ! j = mk (?b ! (j - 3)) (?b ! (j - 2)) (?b ! (j - 1))
                 (bond_lens D ! ((lens_pos s + (j - idx s)) mod 3))
                 (bond_bend D ! ((bend_pos s + (j - idx s)) mod 3)) t"
    if "idx s \<le> j" "j < idx s + 1" for j
  proof -
    have j: "j = idx s" using that by simp
    have "?b ! (idx s - 3) = bb s ! (idx s - 3)" "?b ! (idx s - 2) = bb s ! (idx s - 2)"
      "?b ! (idx s - 1) = bb s ! (idx s - 1)"
      using assms(1) by (simp_all add: old)
    then show ?thesis unfolding j new by (intro exI [of _ torsion]) simp
  qed
  show ?thesis
    unfolding placed_between_def using assms(2) old slot by simp
qed

lemma fragment_loop_placed:
  assumes "3 \<le> idx s" "idx s \<le> length (bb s)"
  shows "\<exists>r s'. fragment_loop mk D ts s = (r, s') \<and> placed_between mk D s s'
     \<and> (if idx s + length ts \<le> length (bb s)
         then r = None \<and> idx s' = idx s + length ts
              \<and> lens_pos s' = lens_pos s + length ts \<and> bend_pos s' = bend_pos s + length ts
         else r = Some IndexError \<and> idx s' = length (bb s))"
  using assms
proof (induction ts arbitrary: s)
  case Nil
  then show ?case by (simp add: placed_between_same)
next
  case (Cons t ts)
  show ?case
  proof (cases "idx s < length (bb s)")
    case False
    then have full: "idx s = length (bb s)" using Cons.prems by simp
    show ?thesis
      using place_step_full [OF Cons.prems(1) full, of mk D t] full
      by (simp add: placed_between_same)
  next
    case True
    define s1 where "s1 = s\<lparr>lens_pos := lens_pos s + 1, bend_pos := bend_pos s + 1,
              bb := (bb s)[idx s := mk (bb s ! (idx s - 3)) (bb s ! (idx s - 2))
                     (bb s ! (idx s - 1)) (bond_lens D ! (lens_pos s mod 3))
                     (bond_bend D ! (bend_pos s mod 3)) t],
              idx := idx s + 1\<rparr>"
    have step: "place_step mk D s t = (None, s1)"
      unfolding s1_def by (rule place_step_ok [OF Cons.prems(1) True])
    have p1: "placed_between mk D s s1"
      unfolding s1_def by (rule placed_between_step [OF Cons.prems(1) True])
    have s1: "idx s1 = idx s + 1" "length (bb s1) = length (bb s)"
      "lens_pos s1 = lens_pos s + 1" "bend_pos s1 = bend_pos s + 1"
      by (simp_all add: s1_def)
    have "3 \<le> idx s1" "idx s1 \<le> length (bb s1)" using Cons.prems True s1 by simp_all
    from Cons.IH [OF this] obtain r s' where
      run: "fragment_loop mk D ts s1 = (r, s')" and p2: "placed_between mk D s1 s'"
      and fin: "if idx s1 + length ts \<le> length (bb s1)
         then r = None \<and> idx s' = idx s1 + length ts
              \<and> lens_pos s' = lens_pos s1 + length ts \<and> bend_pos s' = bend_pos s1 + length ts
         else r = Some IndexError \<and> idx s' = length (bb s1)"
      by blast
    have p: "placed_between mk D s s'"
      by (rule placed_between_trans [OF p1 p2]) (simp_all add: s1)
    have "fragment_loop mk D (t # ts) s = (r, s')" using step run by simp
    then show ?thesis using p fin s1 by (auto split: if_splits)
  qed
qed

lemma length_agls: "length (agls fragment) = length (ravel fragment) - 3"
  by (simp add: agls_def Let_def)

lemma RC_member: "xs \<noteq> [] \<Longrightarrow> \<exists>x\<in>set xs. RC r xs = Inr x"
  by (simp add: RC_def)

lemma growth_loop_terminates:
  assumes "slices \<noteq> []" "\<forall>sl\<in>set slices. 3 < length (ravel (np_rows angles sl))"
    and "3 \<le> idx s" "idx s \<le> length (bb s)"
  shows "\<exists>s'. growth_loop mk D angles slices rnd k s = Some (Inr s')
           \<and> idx s' = length (bb s') \<and> placed_between mk D s s'"
  using assms(3,4)
proof (induction "length (bb s) - idx s" arbitrary: k s rule: less_induct)
  case less
  obtain sl where sl: "sl \<in> set slices" "RC (rnd k) slices = Inr sl"
    using RC_member [OF assms(1)] by blast
  let ?ts = "agls (np_rows angles sl)"
  have pos: "0 < length ?ts" using assms(2) sl(1) by (simp add: length_agls)
  from fragment_loop_placed [OF less.prems, of mk D ?ts] obtain r s1 where
    run: "fragment_loop mk D ?ts s = (r, s1)" and p1: "placed_between mk D s s1"
    and fin: "if idx s + length ?ts \<le> length (bb s)
         then r = None \<and> idx s1 = idx s + length ?ts
              \<and> lens_pos s1 = lens_pos s + length ?ts \<and> bend_pos s1 = bend_pos s + length ?ts
         else r = Some IndexError \<and> idx s1 = length (bb s)"
    by blast
  have len: "length (bb s1) = length (bb s)" using p1 by (simp add: placed_between_def)
  show ?case
  proof (cases "idx s + length ?ts \<le> length (bb s)")
    case False
    then have "r = Some IndexError" "idx s1 = length (bb s1)" using fin len by simp_all
    then show ?thesis
      using p1 run sl(2) by (subst growth_loop.simps) simp
  next
    case True
    then have r: "r = None" and i1: "idx s1 = idx s + length ?ts"
      and c1: "lens_pos s1 = lens_pos s + (idx s1 - idx s)"
        "bend_pos s1 = bend_pos s + (idx s1 - idx s)"
      using fin by simp_all
    have "length (bb s1) - idx s1 < length (bb s) - idx s" "3 \<le> idx s1"
      "idx s1 \<le> length (bb s1)"
      using True pos i1 len less.prems by linarith+
    from less.hyps [OF this, of "k + 1"] obtain s' where
      rest: "growth_loop mk D angles slices rnd (k + 1) s1 = Some (Inr s')"
      and e: "idx s' = length (bb s')" and p2: "placed_between mk D s1 s'"
      by blast
    have "growth_loop mk D angles slices rnd k s = Some (Inr s')"
      using run r sl(2) rest by (subst growth_loop.simps) simp
    moreover have "placed_between mk D s s'"
      by (rule placed_between_trans [OF p1 p2 c1])
    ultimately show ?thesis using e by blast
  qed
qed

lemma growth_loop_returns_progress:
  assumes ret: "growth_loop mk D angles slices rnd k s = Some y"
  shows "\<not> (slices \<noteq> [] \<and> (\<forall>sl\<in>set slices. agls (np_rows angles sl) = []))"
proof -
  have step: "\<not> (slices \<noteq> [] \<and> (\<forall>sl\<in>set slices. agls (np_rows angles sl) = []))"
    if IH: "\<And>mk D angles slices rnd k s y. f mk D angles slices rnd k s = Some y \<Longrightarrow>
          \<not> (slices \<noteq> [] \<and> (\<forall>sl\<in>set slices. agls (np_rows angles sl) = []))"
      and body: "(case RC (rnd k) slices of
            Inl e \<Rightarrow> Some (Inl e)
          | Inr sl \<Rightarrow>
              (case fragment_loop mk D (agls (np_rows angles sl)) s of
                 (Some IndexError, s') \<Rightarrow> Some (Inr s')
               | (Some e, s') \<Rightarrow> Some (Inl e)
               | (None, s') \<Rightarrow> f mk D angles slices rnd (k + 1) s')) = Some y"
    for f :: "placer \<Rightarrow> definitions \<Rightarrow> real list list \<Rightarrow> (nat \<times> nat) list \<Rightarrow> (nat \<Rightarrow> nat) \<Rightarrow> nat
          \<Rightarrow> builder \<Rightarrow> (error + builder) option"
      and mk D angles slices rnd k s y
  proof
    assume h: "slices \<noteq> [] \<and> (\<forall>sl\<in>set slices. agls (np_rows angles sl) = [])"
    then obtain sl where sl: "sl \<in> set slices" "RC (rnd k) slices = Inr sl"
      using RC_member [of slices "rnd k"] by blast
    then have "agls (np_rows angles sl) = []" using h by simp
    then have "f mk D angles slices rnd (k + 1) s = Some y"
      using body sl(2) by simp
    from IH [OF this] h show False by simp
  qed
  show ?thesis
    by (rule growth_loop.raw_induct
          [where P = "\<lambda>mk D angles slices rnd k s y.
             \<not> (slices \<noteq> [] \<and> (\<forall>sl\<in>set slices. agls (np_rows angles sl) = []))",
           OF step ret])
qed

lemma growth_loop_diverges:
  assumes "slices \<noteq> []" "\<forall>sl\<in>set slices. agls (np_rows angles sl) = []"
  shows "growth_loop mk D angles slices rnd k s = None"
proof (cases "growth_loop mk D angles slices rnd k s")
  case None
  then show ?thesis .
next
  case (Some y)
  from growth_loop_returns_progress [OF this] assms show ?thesis by simp
qed

lemma fragment_loop_fits:
  assumes "3 \<le> idx s" "idx s + length ts \<le> length (bb s)"
  shows "\<exists>s'. fragment_loop mk D ts s = (None, s')
     \<and> idx s' = idx s + length ts \<and> length (bb s') = length (bb s)
     \<and> lens_pos s' = lens_pos s + length ts \<and> bend_pos s' = bend_pos s + length ts
     \<and> (\<forall>j<idx s. bb s' ! j = bb s ! j)
     \<and> (\<forall>j<length ts. bb s' ! (idx s + j) =
           mk (bb s' ! (idx s + j - 3)) (bb s' ! (idx s + j - 2)) (bb s' ! (idx s + j - 1))
              (bond_lens D ! ((lens_pos s + j) mod 3))
              (bond_bend D ! ((bend_pos s + j) mod 3)) (ts ! j))"
  using assms
proof (induction ts arbitrary: s)
  case Nil
  then show ?case by simp
next
  case (Cons t ts)
  have lt: "idx s < length (bb s)" using Cons.prems by simp
  let ?v = "mk (bb s ! (idx s - 3)) (bb s ! (idx s - 2))
                     (bb s ! (idx s - 1)) (bond_lens D ! (lens_pos s mod 3))
                     (bond_bend D ! (bend_pos s mod 3)) t"
  define s1 where "s1 = s\<lparr>lens_pos := lens_pos s + 1, bend_pos := bend_pos s + 1,
              bb := (bb s)[idx s := ?v], idx := idx s + 1\<rparr>"
  have step: "place_step mk D s t = (None, s1)"
    unfolding s1_def by (rule place_step_ok [OF Cons.prems(1) lt])
  have s1: "idx s1 = idx s + 1" "length (bb s1) = length (bb s)"
    "lens_pos s1 = lens_pos s + 1" "bend_pos s1 = bend_pos s + 1"
    "bb s1 = (bb s)[idx s := ?v]"
    by (simp_all add: s1_def)
  have "3 \<le> idx s1" "idx s1 + length ts \<le> length (bb s1)"
    using Cons.prems s1 by simp_all
  from Cons.IH [OF this] obtain s' where
    run: "fragment_loop mk D ts s1 = (None, s')"
    and i: "idx s' = idx s1 + length ts" and l: "length (bb s') = length (bb s1)"
    and c: "lens_pos s' = lens_pos s1 + length ts" "bend_pos s' = bend_pos s1 + length ts"
    and old: "\<And>j. j < idx s1 \<Longrightarrow> bb s' ! j = bb s1 ! j"
    and new: "\<And>j. j < length ts \<Longrightarrow> bb s' ! (idx s1 + j) =
           mk (bb s' ! (idx s1 + j - 3)) (bb s' ! (idx s1 + j - 2)) (bb s' ! (idx s1 + j - 1))
              (bond_lens D ! ((lens_pos s1 + j) mod 3))
              (bond_bend D ! ((bend_pos s1 + j) mod 3)) (ts ! j)"
    by blast
  have run': "fragment_loop mk D (t # ts) s = (None, s')" using step run by simp
  have old': "bb s' ! j = bb s ! j" if "j < idx s" for j
    using that old [of j] s1 by simp
  have first: "bb s' ! idx s = ?v"
    using old [of "idx s"] s1 lt by simp
  have slot: "bb s' ! (idx s + j) =
           mk (bb s' ! (idx s + j - 3)) (bb s' ! (idx s + j - 2)) (bb s' ! (idx s + j - 1))
              (bond_lens D ! ((lens_pos s + j) mod 3))
              (bond_bend D ! ((bend_pos s + j) mod 3)) ((t # ts) ! j)"
    if "j < length (t # ts)" for j
  proof (cases j)
    case 0
    have "bb s' ! (idx s - 3) = bb s ! (idx s - 3)" "bb s' ! (idx s - 2) = bb s ! (idx s - 2)"
      "bb s' ! (idx s - 1) = bb s ! (idx s - 1)"
      using Cons.prems(1) by (simp_all add: old')
    then show ?thesis using 0 first by simp
  next
    case (Suc m)
    then have "m < length ts" using that by simp
    from new [OF this] show ?thesis using Suc s1 by simp
  qed
  show ?case
    using run' i l c s1 old' slot by (intro exI [of _ s']) simp
qed

lemma make_axis_vectors_Some:
  "\<exists>n x p. make_axis_vectors A B C = (Some n, Some x, Some p)"
  unfolding make_axis_vectors_def Let_def np_divide_guarded by blast

lemma make_coord_defined: "\<exists>c. make_coord theta phi distance parent xaxis yaxis = Some c"
proof -
  obtain n x p where "make_axis_vectors parent xaxis yaxis = (Some n, Some x, Some p)"
    using make_axis_vectors_Some by blast
  then have "make_coord theta phi distance parent xaxis yaxis
      = Some (vadd (vec_mat_dot (make_coord_from_angles theta phi distance)
                (mat_T (mat_T (mat_dot (x, vneg p, n) AXIS_111)))) parent)"
    by (simp add: make_coord_def rotation_to_plane_def Let_def)
  then show ?thesis by (rule exI)
qed


section \<open>Facts about the torsion angles\<close>

lemma arctan_inv_sqrt3: "arctan (1 / sqrt 3) = pi / 6"
  by (rule arctan_unique) (simp_all add: tan_30)

lemma length_calc_torsion_angles:
  assumes "3 < length coords"
  shows "\<exists>angles. calc_torsion_angles coords = Inr angles \<and> length angles = length coords - 3"
  using assms by (auto simp: calc_torsion_angles_def Let_def)

lemma arctan2_scale:
  assumes "0 < k"
  shows "arctan2 (k * y) (k * x) = arctan2 y x"
proof -
  have "0 < k * x \<longleftrightarrow> 0 < x" "k * x < 0 \<longleftrightarrow> x < 0" "0 \<le> k * y \<longleftrightarrow> 0 \<le> y"
    "0 < k * y \<longleftrightarrow> 0 < y" "k * y < 0 \<longleftrightarrow> y < 0"
    using assms by (simp_all add: zero_less_mult_iff mult_less_0_iff zero_le_mult_iff)
  moreover have "k * y / (k * x) = y / x" using assms by simp
  ultimately show ?thesis unfolding arctan2_def by simp
qed

lemma dot_sdiv: "dot (sdiv a k) (sdiv b m) = dot a b / (k * m)"
  by (cases a; cases b) (simp add: add_divide_distrib)

lemma cross_sdiv: "cross (sdiv a k) (sdiv b m) = sdiv (cross a b) (k * m)"
  by (cases a; cases b) (simp add: diff_divide_distrib)

lemma norm3_dot: "norm3 v = sqrt (dot v v)"
  by (cases v) simp

lemma dot_self_pos: "v \<noteq> zero3 \<Longrightarrow> 0 < dot v v"
  using norm3_pos_iff [of v] by (simp add: norm3_dot del: norm3.simps)

lemma dot_self_nonneg: "0 \<le> dot v v"
  by (cases v) simp

text \<open>For four atoms the two norms are those of the single torsion: the result is the dihedral.\<close>

lemma calc_torsion_angles_four_atoms:
  assumes c0: "cross (vsub p1 p0) (vsub p2 p1) \<noteq> zero3"
    and c1: "cross (vsub p2 p1) (vsub p3 p2) \<noteq> zero3"
  shows "calc_torsion_angles [p0, p1, p2, p3] = Inr [Some (dihedral_spec p0 p1 p2 p3)]"
proof -
  define q0 q1 q2 where "q0 = vsub p1 p0" and "q1 = vsub p2 p1" and "q2 = vsub p3 p2"
  define a b where "a = cross q0 q1" and "b = cross q1 q2"
  define F where "F = frobenius [a, b]"
  define G where "G = frobenius [q1]"
  have a: "a \<noteq> zero3" and b: "b \<noteq> zero3" using c0 c1 by (simp_all add: a_def b_def q0_def q1_def q2_def)
  have q1: "q1 \<noteq> zero3" using a cross_zero_right [of q0] by (auto simp: a_def)
  have F2: "F * F = dot a a + dot b b"
    using dot_self_nonneg [of a] dot_self_nonneg [of b] by (simp add: F_def frobenius_def)
  have Fpos: "0 < F"
    using dot_self_pos [OF a] dot_self_nonneg [of b] by (simp add: F_def frobenius_def add_pos_nonneg)
  have G: "G = norm3 q1" by (simp add: G_def frobenius_def norm3_dot del: norm3.simps)
  have Gpos: "0 < G" unfolding G using q1 norm3_pos_iff by simp
  have na: "0 < norm3 a" and nb: "0 < norm3 b" using a b norm3_pos_iff by simp_all
  define X where "X = dot a b"
  define Y where "Y = dot a (cross q1 b) / G"
  have code: "calc_torsion_angles [p0, p1, p2, p3]
      = Inr [Some (- arctan2 (dot (sdiv a F) (cross (sdiv q1 G) (sdiv b F)))
                             (dot (sdiv a F) (sdiv b F)))]"
    using Fpos Gpos
    by (simp add: calc_torsion_angles_def Let_def q0_def [symmetric] q1_def [symmetric]
        q2_def [symmetric] a_def [symmetric] b_def [symmetric] F_def [symmetric]
        G_def [symmetric])
  have spec: "dihedral_spec p0 p1 p2 p3
      = - arctan2 (dot (sdiv a (norm3 a)) (cross (sdiv q1 G) (sdiv b (norm3 b))))
                  (dot (sdiv a (norm3 a)) (sdiv b (norm3 b)))"
    by (simp add: dihedral_spec_def Let_def normalize3_def q0_def [symmetric]
        q1_def [symmetric] q2_def [symmetric] a_def [symmetric] b_def [symmetric] G
        del: norm3.simps)
  have cs: "dot (sdiv a F) (cross (sdiv q1 G) (sdiv b F)) = (1 / (F * F)) * Y"
    "dot (sdiv a F) (sdiv b F) = (1 / (F * F)) * X"
    using Fpos Gpos dot_sdiv [of a F "cross q1 b" "G * F"] dot_sdiv [of a F b F]
    by (simp_all add: cross_sdiv X_def Y_def field_simps)
  have ss: "dot (sdiv a (norm3 a)) (cross (sdiv q1 G) (sdiv b (norm3 b)))
         = (1 / (norm3 a * norm3 b)) * Y"
    "dot (sdiv a (norm3 a)) (sdiv b (norm3 b)) = (1 / (norm3 a * norm3 b)) * X"
    using na nb Gpos dot_sdiv [of a "norm3 a" "cross q1 b" "G * norm3 b"]
      dot_sdiv [of a "norm3 a" b "norm3 b"]
    by (simp_all add: cross_sdiv X_def Y_def field_simps del: norm3.simps)
  have "0 < 1 / (F * F)" "0 < 1 / (norm3 a * norm3 b)" using Fpos na nb by simp_all
  then show ?thesis
    unfolding code spec cs ss by (simp only: arctan2_scale)
qed

section \<open>The local frame is total\<close>



section \<open>The two clash predicates\<close>

text \<open>
  Claim C2, as amended. When the settled window \<open>last_chain[:-2]\<close> is not empty and all
  its residues have the four atoms N, CA, C, O, and the new window
  \<open>current_chain[len(last_chain)+1:]\<close> is not empty and its residues have these four atoms,
  the last one possibly without its O, then \<open>clash_found_vectorized\<close> and \<open>clash_found\<close>
  both return, and return the same boolean.
\<close>

theorem clash_predicates_agree:
  assumes "settled_canonical (settled_group last_chain)"
    and "new_canonical (new_group current_chain last_chain)"
  shows "\<exists>b. clash_found_vectorized self current_chain last_chain = (Inr b, self)
           \<and> clash_found self current_chain last_chain = (Inr b, self)"
  unfolding clash_found_vectorized_def clash_found_def
    vectorized_char [OF assms] incremental_char [OF assms]
  by simp

text \<open>
  A settled window of one residue and a new window of two, the last with three atoms.
\<close>

theorem clash_predicates_agree_witness:
  "settled_canonical (settled_group [residue4 0 10, residue4 100 10, residue4 200 10])
   \<and> new_canonical (new_group
        [residue4 0 10, residue4 100 10, residue4 200 10, residue4 300 10, residue4 400 10,
         residue3 1 (- 10)]
        [residue4 0 10, residue4 100 10, residue4 200 10])
   \<and> fst (clash_found_vectorized ClashValidator_init
        [residue4 0 10, residue4 100 10, residue4 200 10, residue4 300 10, residue4 400 10,
         residue3 1 (- 10)]
        [residue4 0 10, residue4 100 10, residue4 200 10])
     = fst (clash_found ClashValidator_init
        [residue4 0 10, residue4 100 10, residue4 200 10, residue4 300 10, residue4 400 10,
         residue3 1 (- 10)]
        [residue4 0 10, residue4 100 10, residue4 200 10])"
proof -
  have s: "settled_canonical (settled_group [residue4 0 10, residue4 100 10, residue4 200 10])"
    by (simp add: settled_canonical_def settled_group_def full_residue_def)
  have n: "new_canonical (new_group
        [residue4 0 10, residue4 100 10, residue4 200 10, residue4 300 10, residue4 400 10,
         residue3 1 (- 10)]
        [residue4 0 10, residue4 100 10, residue4 200 10])"
    by (simp add: new_canonical_def new_group_def full_residue_def open_residue_def)
  from clash_predicates_agree [OF s n, of ClashValidator_init] s n
  show ?thesis by auto
qed

text \<open>
  Claim C2 as stated fails in two ways. With only two residues in \<open>last_chain\<close> the settled
  window is empty: \<open>np.concatenate\<close> raises ValueError in the batched method, and the
  incremental one returns False. With a settled window whose last residue has three
  atoms, the batched method raises ValueError, since the tiled table keeps eight rows
  for seven atoms, and the incremental one returns True from its first residue pair.
\<close>

theorem clash_predicates_agree_counterexample:
  "fst (clash_found_vectorized ClashValidator_init
          [residue4 0 10, residue4 100 10, residue4 200 10, residue4 300 10]
          [residue4 0 10, residue4 100 10]) = Inl ValueError
   \<and> fst (clash_found ClashValidator_init
          [residue4 0 10, residue4 100 10, residue4 200 10, residue4 300 10]
          [residue4 0 10, residue4 100 10]) = Inr False
   \<and> fst (clash_found_vectorized ClashValidator_init
          [residue4 0 10, residue3 100 10, residue4 200 10, residue4 300 10, residue4 400 10,
           residue4 1 (- 10)]
          [residue4 0 10, residue3 100 10, residue4 200 10, residue4 300 10]) = Inl ValueError
   \<and> fst (clash_found ClashValidator_init
          [residue4 0 10, residue3 100 10, residue4 200 10, residue4 300 10, residue4 400 10,
           residue4 1 (- 10)]
          [residue4 0 10, residue3 100 10, residue4 200 10, residue4 300 10]) = Inr True"
proof -
  have a: "clash_found_vectorized_body
          [residue4 0 10, residue4 100 10, residue4 200 10, residue4 300 10]
          [residue4 0 10, residue4 100 10] = Inl ValueError"
    by (simp add: clash_found_vectorized_body_def np_concatenate_def)
  have b: "clash_found_body
          [residue4 0 10, residue4 100 10, residue4 200 10, residue4 300 10]
          [residue4 0 10, residue4 100 10] = Inr False"
    by (simp add: clash_found_body_def)
  have c: "clash_found_vectorized_body
          [residue4 0 10, residue3 100 10, residue4 200 10, residue4 300 10, residue4 400 10,
           residue4 1 (- 10)]
          [residue4 0 10, residue3 100 10, residue4 200 10, residue4 300 10] = Inl ValueError"
    by (simp add: clash_found_vectorized_body_def np_concatenate_def dict_values_def
        cdist_def ncols_def ceil4_def np_less_def bdim_def length_np_tile length_add_outer
        length_VDW)
  have "pair_check (dict_values (residue4 0 10)) (dict_values (residue4 1 (- 10))) = Inr True"
    by (subst pair_check_canonical)
       (simp_all add: dict_values_def ex_less_4 Ex_less_Suc euclidean_x_axis VDW_values
          double_of_2_4 rne_def Let_def)
  then have d: "clash_found_body
          [residue4 0 10, residue3 100 10, residue4 200 10, residue4 300 10, residue4 400 10,
           residue4 1 (- 10)]
          [residue4 0 10, residue3 100 10, residue4 200 10, residue4 300 10] = Inr True"
    by (simp add: clash_found_body_def upt_rec [of 0] upt_rec [of 1] upt_rec [of 2]
          upt_rec [of 5] upt_rec [of 6])
  show ?thesis
    unfolding clash_found_vectorized_def clash_found_def fst_conv a b c d by simp
qed




text \<open>
  Claim C9. Neither method changes the validator: every field, the counter \<open>clashes\<close>
  among them, is as before the call, whether the call returns or raises; the result does
  not depend on the validator, and a second call with the same arguments gives the
  result of the first.
\<close>

theorem clash_validator_pure:
  "snd (clash_found_vectorized self current_chain last_chain) = self
   \<and> snd (clash_found self current_chain last_chain) = self
   \<and> clashes (snd (clash_found_vectorized self current_chain last_chain)) = clashes self
   \<and> clashes (snd (clash_found self current_chain last_chain)) = clashes self
   \<and> fst (clash_found_vectorized
            (snd (clash_found_vectorized self current_chain last_chain))
            current_chain last_chain)
       = fst (clash_found_vectorized self current_chain last_chain)
   \<and> fst (clash_found (snd (clash_found self current_chain last_chain))
            current_chain last_chain)
       = fst (clash_found self current_chain last_chain)
   \<and> fst (clash_found_vectorized other current_chain last_chain)
       = fst (clash_found_vectorized self current_chain last_chain)
   \<and> fst (clash_found other current_chain last_chain)
       = fst (clash_found self current_chain last_chain)"
  by (simp add: clash_found_vectorized_def clash_found_def)

text \<open>
  Claim C10. Both methods compare the same two groups: the residues of \<open>last_chain\<close>
  before its final two, and the residues of \<open>current_chain\<close> at indices above
  \<open>len(last_chain)\<close>. Nothing else is read: two calls whose arguments agree on these two
  windows give the same result, so the two trailing residues of \<open>last_chain\<close> and the
  residues of \<open>current_chain\<close> up to index \<open>len(last_chain)\<close> take part in no comparison.
  And every atom pair of the two windows is compared: on canonical windows both methods
  return True exactly when some atom of some residue of the first window and some atom
  of some residue of the second are closer than the double sum of their radii.
\<close>

theorem clash_window_only:
  "(take (length last_chain - 2) last_chain = take (length last_chain' - 2) last_chain'
    \<and> drop (length last_chain + 1) current_chain
        = drop (length last_chain' + 1) current_chain'
    \<longrightarrow> clash_found_vectorized self current_chain last_chain
          = clash_found_vectorized self current_chain' last_chain'
        \<and> clash_found self current_chain last_chain
          = clash_found self current_chain' last_chain')
   \<and> (settled_canonical (take (length last_chain - 2) last_chain)
      \<and> new_canonical (drop (length last_chain + 1) current_chain)
    \<longrightarrow> (let compared =
               (\<exists>P\<in>set (take (length last_chain - 2) last_chain).
                \<exists>Q\<in>set (drop (length last_chain + 1) current_chain).
                \<exists>a<length (dict_values P). \<exists>b<length (dict_values Q).
                   euclidean (dict_values P ! a) (dict_values Q ! b)
                     < double_of (VDW ! a + VDW ! b))
         in clash_found_vectorized self current_chain last_chain = (Inr compared, self)
            \<and> clash_found self current_chain last_chain = (Inr compared, self)))"
proof (intro conjI impI)
  assume w: "take (length last_chain - 2) last_chain = take (length last_chain' - 2) last_chain'
    \<and> drop (length last_chain + 1) current_chain
        = drop (length last_chain' + 1) current_chain'"
  have s: "settled_group last_chain = settled_group last_chain'"
    using w by (simp add: settled_group_def)
  have n: "new_group current_chain last_chain = new_group current_chain' last_chain'"
    using w by (simp add: new_group_def)
  show "clash_found_vectorized self current_chain last_chain
          = clash_found_vectorized self current_chain' last_chain'"
    unfolding clash_found_vectorized_def clash_found_vectorized_body_groups s n ..
  show "clash_found self current_chain last_chain
          = clash_found self current_chain' last_chain'"
    unfolding clash_found_def clash_found_body_groups s n ..
next
  assume c: "settled_canonical (take (length last_chain - 2) last_chain)
      \<and> new_canonical (drop (length last_chain + 1) current_chain)"
  then have sc: "settled_canonical (settled_group last_chain)"
    and nc: "new_canonical (new_group current_chain last_chain)"
    by (simp_all add: settled_group_def new_group_def)
  show "let compared =
               (\<exists>P\<in>set (take (length last_chain - 2) last_chain).
                \<exists>Q\<in>set (drop (length last_chain + 1) current_chain).
                \<exists>a<length (dict_values P). \<exists>b<length (dict_values Q).
                   euclidean (dict_values P ! a) (dict_values Q ! b)
                     < double_of (VDW ! a + VDW ! b))
         in clash_found_vectorized self current_chain last_chain = (Inr compared, self)
            \<and> clash_found self current_chain last_chain = (Inr compared, self)"
    unfolding Let_def clash_found_vectorized_def clash_found_def
      vectorized_char [OF sc nc] incremental_char [OF sc nc]
      some_pair_closer_def residue_pair_closer_def settled_group_def new_group_def
    by simp
qed

text \<open>
  Two calls with the same windows, one settled residue and one new residue far from it.
  In the first call the two trailing settled residues lie on the new residue and
  residue \<open>len(last_chain)\<close> of the current chain lies on the settled residue; in the
  second call they are far away: both calls return False. In the third call the last
  residue of the settled window, the third from the end of \<open>last_chain\<close>, has its N one
  unit from the N of the new residue: both methods return True.
\<close>

theorem clash_window_only_witness:
  "take (length [residue4 0 10, residue3 (- 50) (- 10), residue3 (- 50) (- 10)] - 2)
        [residue4 0 10, residue3 (- 50) (- 10), residue3 (- 50) (- 10)]
     = take (length [residue4 0 10, residue4 500 10, residue4 600 10] - 2)
        [residue4 0 10, residue4 500 10, residue4 600 10]
   \<and> drop (length [residue4 0 10, residue3 (- 50) (- 10), residue3 (- 50) (- 10)] + 1)
        [residue4 0 10, residue3 (- 50) (- 10), residue3 (- 50) (- 10), residue4 0 10,
         residue3 (- 50) (- 10)]
     = drop (length [residue4 0 10, residue4 500 10, residue4 600 10] + 1)
        [residue4 700 10, residue4 800 10, residue4 900 10, residue4 1000 10,
         residue3 (- 50) (- 10)]
   \<and> settled_canonical
        (take (length [residue4 0 10, residue3 (- 50) (- 10), residue3 (- 50) (- 10)] - 2)
           [residue4 0 10, residue3 (- 50) (- 10), residue3 (- 50) (- 10)])
   \<and> new_canonical
        (drop (length [residue4 0 10, residue3 (- 50) (- 10), residue3 (- 50) (- 10)] + 1)
           [residue4 0 10, residue3 (- 50) (- 10), residue3 (- 50) (- 10), residue4 0 10,
            residue3 (- 50) (- 10)])
   \<and> clash_found_vectorized ClashValidator_init
        [residue4 0 10, residue3 (- 50) (- 10), residue3 (- 50) (- 10), residue4 0 10,
         residue3 (- 50) (- 10)]
        [residue4 0 10, residue3 (- 50) (- 10), residue3 (- 50) (- 10)]
     = (Inr False, ClashValidator_init)
   \<and> clash_found ClashValidator_init
        [residue4 0 10, residue3 (- 50) (- 10), residue3 (- 50) (- 10), residue4 0 10,
         residue3 (- 50) (- 10)]
        [residue4 0 10, residue3 (- 50) (- 10), residue3 (- 50) (- 10)]
     = (Inr False, ClashValidator_init)
   \<and> clash_found_vectorized ClashValidator_init
        [residue4 700 10, residue4 800 10, residue4 900 10, residue4 1000 10,
         residue3 (- 50) (- 10)]
        [residue4 0 10, residue4 500 10, residue4 600 10]
     = (Inr False, ClashValidator_init)
   \<and> clash_found ClashValidator_init
        [residue4 700 10, residue4 800 10, residue4 900 10, residue4 1000 10,
         residue3 (- 50) (- 10)]
        [residue4 0 10, residue4 500 10, residue4 600 10]
     = (Inr False, ClashValidator_init)
   \<and> settled_canonical
        (take (length [residue4 500 10, residue4 0 10, residue4 600 10, residue4 700 10] - 2)
           [residue4 500 10, residue4 0 10, residue4 600 10, residue4 700 10])
   \<and> new_canonical
        (drop (length [residue4 500 10, residue4 0 10, residue4 600 10, residue4 700 10] + 1)
           [residue4 500 10, residue4 0 10, residue4 600 10, residue4 700 10,
            residue4 800 10, residue3 1 (- 10)])
   \<and> clash_found_vectorized ClashValidator_init
        [residue4 500 10, residue4 0 10, residue4 600 10, residue4 700 10,
         residue4 800 10, residue3 1 (- 10)]
        [residue4 500 10, residue4 0 10, residue4 600 10, residue4 700 10]
     = (Inr True, ClashValidator_init)
   \<and> clash_found ClashValidator_init
        [residue4 500 10, residue4 0 10, residue4 600 10, residue4 700 10,
         residue4 800 10, residue3 1 (- 10)]
        [residue4 500 10, residue4 0 10, residue4 600 10, residue4 700 10]
     = (Inr True, ClashValidator_init)"
proof -
  let ?last1 = "[residue4 0 10, residue3 (- 50) (- 10), residue3 (- 50) (- 10)]"
  let ?cur1 = "[residue4 0 10, residue3 (- 50) (- 10), residue3 (- 50) (- 10), residue4 0 10,
         residue3 (- 50) (- 10)]"
  let ?last2 = "[residue4 0 10, residue4 500 10, residue4 600 10]"
  let ?cur2 = "[residue4 700 10, residue4 800 10, residue4 900 10, residue4 1000 10,
         residue3 (- 50) (- 10)]"
  let ?last3 = "[residue4 500 10, residue4 0 10, residue4 600 10, residue4 700 10]"
  let ?cur3 = "[residue4 500 10, residue4 0 10, residue4 600 10, residue4 700 10,
         residue4 800 10, residue3 1 (- 10)]"
  have t: "take (length ?last1 - 2) ?last1 = take (length ?last2 - 2) ?last2" by simp
  have d: "drop (length ?last1 + 1) ?cur1 = drop (length ?last2 + 1) ?cur2" by simp
  have s1: "settled_canonical (take (length ?last1 - 2) ?last1)"
    by (simp add: settled_canonical_def full_residue_def)
  have n1: "new_canonical (drop (length ?last1 + 1) ?cur1)"
    by (simp add: new_canonical_def full_residue_def open_residue_def)
  have s3: "settled_canonical (take (length ?last3 - 2) ?last3)"
    by (simp add: settled_canonical_def full_residue_def)
  have n3: "new_canonical (drop (length ?last3 + 1) ?cur3)"
    by (simp add: new_canonical_def full_residue_def open_residue_def)
  note same = clash_window_only [of ?last1 ?last2 ?cur1 ?cur2 ClashValidator_init,
      THEN conjunct1, rule_format, OF conjI [OF t d]]
  note far = clash_window_only [of ?last1 ?last1 ?cur1 ?cur1 ClashValidator_init,
      THEN conjunct2, rule_format, OF conjI [OF s1 n1], unfolded Let_def]
  note near = clash_window_only [of ?last3 ?last3 ?cur3 ?cur3 ClashValidator_init,
      THEN conjunct2, rule_format, OF conjI [OF s3 n3], unfolded Let_def]
  have v1: "clash_found_vectorized ClashValidator_init ?cur1 ?last1
      = (Inr False, ClashValidator_init)"
    unfolding far [THEN conjunct1]
    by (simp add: dict_values_def ex_less_4 ex_less_3 Ex_less_Suc euclidean_x_axis
        VDW_values double_of_2_4 rne_def Let_def)
  have i1: "clash_found ClashValidator_init ?cur1 ?last1 = (Inr False, ClashValidator_init)"
    unfolding far [THEN conjunct2]
    by (simp add: dict_values_def ex_less_4 ex_less_3 Ex_less_Suc euclidean_x_axis
        VDW_values double_of_2_4 rne_def Let_def)
  have v2: "clash_found_vectorized ClashValidator_init ?cur2 ?last2
      = (Inr False, ClashValidator_init)"
    using same [THEN conjunct1] v1 by simp
  have i2: "clash_found ClashValidator_init ?cur2 ?last2 = (Inr False, ClashValidator_init)"
    using same [THEN conjunct2] i1 by simp
  have v3: "clash_found_vectorized ClashValidator_init ?cur3 ?last3
      = (Inr True, ClashValidator_init)"
    unfolding near [THEN conjunct1]
    by (simp add: dict_values_def ex_less_4 ex_less_3 Ex_less_Suc euclidean_x_axis
        VDW_values double_of_2_4 rne_def Let_def)
  have i3: "clash_found ClashValidator_init ?cur3 ?last3 = (Inr True, ClashValidator_init)"
    unfolding near [THEN conjunct2]
    by (simp add: dict_values_def ex_less_4 ex_less_3 Ex_less_Suc euclidean_x_axis
        VDW_values double_of_2_4 rne_def Let_def)
  show ?thesis
    using t d s1 n1 v1 i1 v2 i2 s3 n3 v3 i3 by (intro conjI)
qed

section \<open>The build loop: fragments, cycles and the end of growth\<close>

text \<open>
  Claim C4, as amended. Of the flattened fragment \<open>angles[RC(slices), :].ravel()\<close> the
  slice \<open>[1:-2]\<close> discards the first value and the last two values; the values at the
  positions in between are the torsions used for placement, in their order.
\<close>

theorem interior_torsions:
  "agls fragment = drop 1 (take (length (ravel fragment) - 2) (ravel fragment))
   \<and> length (agls fragment) = length (ravel fragment) - 3
   \<and> (\<forall>j<length (agls fragment). agls fragment ! j = ravel fragment ! (j + 1))"
  by (simp add: agls_def Let_def)

theorem interior_torsions_witness:
  "agls [[1, 2, 3], [4, 5, 6]] = [2, 3, 4]
   \<and> length (agls [[1, 2, 3], [4, 5, 6]]) = 3
   \<and> agls [[1, 2, 3], [4, 5, 6]] ! 0 = ravel [[1, 2, 3], [4, 5, 6]] ! 1"
  using interior_torsions [of "[[1, 2, 3], [4, 5, 6]]"]
  by (simp add: ravel_def)

text \<open>
  Claim C4 as stated has only the first and the last value discarded: for a fragment of
  two rows that would leave four torsions, and the loop uses three.
\<close>

theorem interior_torsions_counterexample:
  "agls [[1, 2, 3], [4, 5, 6]] = [2, 3, 4]
   \<and> agls [[1, 2, 3], [4, 5, 6]] \<noteq> butlast (tl (ravel [[1, 2, 3], [4, 5, 6]]))"
  by (simp add: agls_def ravel_def)

text \<open>
  Claim C3, as amended. As long as the buffer has room, the loop over the torsions of a
  fragment takes for each torsion, in order, the next bond length of the cycle
  C-N, N-CA, CA-C and the next bend of the cycle \<open>pi - CA-C-N\<close>, \<open>pi - C-N-CA\<close>,
  \<open>pi - N-CA-C\<close>, stores at the cursor the atom that \<open>make_coord_Q\<close> returns for the three
  atoms before the cursor, and moves the cursor by one. The atoms placed before are left
  as they are.
\<close>

theorem growing_consumes_cycle:
  assumes "3 \<le> idx s" and "idx s + length torsions \<le> length (bb s)"
  shows "\<exists>s'. fragment_loop mk D torsions s = (None, s')
     \<and> idx s' = idx s + length torsions \<and> length (bb s') = length (bb s)
     \<and> lens_pos s' = lens_pos s + length torsions
     \<and> bend_pos s' = bend_pos s + length torsions
     \<and> (\<forall>j<idx s. bb s' ! j = bb s ! j)
     \<and> (\<forall>j<length torsions. bb s' ! (idx s + j) =
           mk (bb s' ! (idx s + j - 3)) (bb s' ! (idx s + j - 2)) (bb s' ! (idx s + j - 1))
              ([distance_C_Np1 D, distance_N_CA D, distance_CA_C D]
                 ! ((lens_pos s + j) mod 3))
              ([pi - average_CA_C_Np1 D, pi - average_Cm1_N_CA D, pi - average_N_CA_C D]
                 ! ((bend_pos s + j) mod 3))
              (torsions ! j))"
  using fragment_loop_fits [OF assms, of mk D]
  by (simp add: bond_lens_def bond_bend_def)

text \<open>
  Two torsions placed after a seed of three atoms, with a placer that returns the bond
  length, the bend and the torsion it is given.
\<close>

theorem growing_consumes_cycle_witness:
  "3 \<le> idx \<lparr>bb = [(0, 0, 0), (1, 0, 0), (1, 1, 0), (0, 0, 0), (0, 0, 0)], idx = 3,
              lens_pos = 0, bend_pos = 0\<rparr>
   \<and> idx \<lparr>bb = [(0, 0, 0), (1, 0, 0), (1, 1, 0), (0, 0, 0), (0, 0, 0)], idx = 3,
              lens_pos = 0, bend_pos = 0\<rparr> + length [0.5, 1 :: real]
       \<le> length (bb \<lparr>bb = [(0, 0, 0), (1, 0, 0), (1, 1, 0), (0, 0, 0), (0, 0, 0)], idx = 3,
              lens_pos = 0, bend_pos = 0\<rparr>)
   \<and> fragment_loop probe_placer example_definitions [0.5, 1]
        \<lparr>bb = [(0, 0, 0), (1, 0, 0), (1, 1, 0), (0, 0, 0), (0, 0, 0)], idx = 3,
          lens_pos = 0, bend_pos = 0\<rparr>
     = (None, \<lparr>bb = [(0, 0, 0), (1, 0, 0), (1, 1, 0), (1.33, pi - 2.03, 0.5),
                      (1.46, pi - 2.12, 1)], idx = 5, lens_pos = 2, bend_pos = 2\<rparr>)"
  using growing_consumes_cycle [of
      "\<lparr>bb = [(0, 0, 0), (1, 0, 0), (1, 1, 0), (0, 0, 0), (0, 0, 0)], idx = 3,
              lens_pos = 0, bend_pos = 0\<rparr>" "[0.5, 1]" probe_placer example_definitions]
  by (simp add: place_step_def np_index_def cycle_next_def bond_lens_def bond_bend_def)

text \<open>
  Claim C3 as stated pairs the C-N bond with the bend derived from C-N-CA. The first
  atom of the loop is placed with the bend \<open>pi - average_CA_C_Np1\<close>, here \<open>pi - 2.03\<close>, where
  the cycle of the claim has \<open>pi - average_Cm1_N_CA\<close>, here \<open>pi - 2.12\<close>.
\<close>

theorem growing_consumes_cycle_counterexample:
  "fragment_loop probe_placer example_definitions [0.5]
        \<lparr>bb = [(0, 0, 0), (1, 0, 0), (1, 1, 0), (0, 0, 0), (0, 0, 0)], idx = 3,
          lens_pos = 0, bend_pos = 0\<rparr>
     = (None, \<lparr>bb = [(0, 0, 0), (1, 0, 0), (1, 1, 0), (1.33, pi - 2.03, 0.5),
                      (0, 0, 0)], idx = 4, lens_pos = 1, bend_pos = 1\<rparr>)
   \<and> spec_cycle example_definitions ! 0 = (1.33, pi - 2.12)
   \<and> (1.33, pi - 2.03) \<noteq> spec_cycle example_definitions ! 0"
  by (simp add: place_step_def np_index_def cycle_next_def bond_lens_def bond_bend_def
      spec_cycle_def)




text \<open>
  Claim C6, as amended. From a state with the seed placed (a cursor of at least 3, not
  beyond the buffer), with at least one slice and every slice giving a fragment of more
  than three torsion values, the loop returns: the cursor is at the end of the buffer,
  the atoms before the old cursor are untouched and every slot from the old cursor to
  the end holds a placed atom. A fragment that does not fit ends in the IndexError with
  the cursor at the end of the buffer and the atoms it placed before the overflow in
  the buffer: nothing is rolled back.
\<close>

theorem growth_loop_stops_at_budget:
  assumes "slices \<noteq> []"
    and "\<forall>sl\<in>set slices. 3 < length (ravel (np_rows angles sl))"
    and "3 \<le> idx s" and "idx s \<le> length (bb s)"
  shows "(\<exists>s'. growth_loop mk D angles slices rnd k s = Some (Inr s')
            \<and> idx s' = length (bb s) \<and> placed_between mk D s s')
     \<and> (\<forall>ts. length (bb s) < idx s + length ts \<longrightarrow>
            (\<exists>s1. fragment_loop mk D ts s = (Some IndexError, s1)
                \<and> idx s1 = length (bb s) \<and> placed_between mk D s s1))"
proof
  from growth_loop_terminates [OF assms, of mk D rnd k]
  show "\<exists>s'. growth_loop mk D angles slices rnd k s = Some (Inr s')
            \<and> idx s' = length (bb s) \<and> placed_between mk D s s'"
    by (auto simp: placed_between_def)
  show "\<forall>ts. length (bb s) < idx s + length ts \<longrightarrow>
            (\<exists>s1. fragment_loop mk D ts s = (Some IndexError, s1)
                \<and> idx s1 = length (bb s) \<and> placed_between mk D s s1)"
  proof (intro allI impI)
    fix ts :: "real list"
    assume "length (bb s) < idx s + length ts"
    then show "\<exists>s1. fragment_loop mk D ts s = (Some IndexError, s1)
                \<and> idx s1 = length (bb s) \<and> placed_between mk D s s1"
      using fragment_loop_placed [OF assms(3,4), of mk D ts] by auto
  qed
qed

text \<open>
  A buffer of five atoms and one fragment of two rows: its torsions 2 and 3 place the
  atoms 3 and 4, the torsion 4 overflows, and the loop ends with both atoms in place.
\<close>

theorem growth_loop_stops_at_budget_witness:
  "[(0, 2)] \<noteq> ([] :: (nat \<times> nat) list)
   \<and> 3 < length (ravel (np_rows [[1, 2, 3], [4, 5, 6 :: real]] (0, 2)))
   \<and> 3 \<le> idx \<lparr>bb = [(0, 0, 0), (1, 0, 0), (1, 1, 0), (0, 0, 0), (0, 0, 0)], idx = 3,
                lens_pos = 0, bend_pos = 0\<rparr>
   \<and> idx \<lparr>bb = [(0, 0, 0), (1, 0, 0), (1, 1, 0), (0, 0, 0), (0, 0, 0)], idx = 3,
                lens_pos = 0, bend_pos = 0\<rparr>
       \<le> length (bb \<lparr>bb = [(0, 0, 0), (1, 0, 0), (1, 1, 0), (0, 0, 0), (0, 0, 0)], idx = 3,
                lens_pos = 0, bend_pos = 0\<rparr>)
   \<and> growth_loop probe_placer example_definitions [[1, 2, 3], [4, 5, 6]] [(0, 2)] (\<lambda>k. 0) 0
        \<lparr>bb = [(0, 0, 0), (1, 0, 0), (1, 1, 0), (0, 0, 0), (0, 0, 0)], idx = 3,
          lens_pos = 0, bend_pos = 0\<rparr>
     = Some (Inr \<lparr>bb = [(0, 0, 0), (1, 0, 0), (1, 1, 0), (1.33, pi - 2.03, 2),
                        (1.46, pi - 2.12, 3)], idx = 5, lens_pos = 3, bend_pos = 3\<rparr>)"
proof -
  have run: "growth_loop probe_placer example_definitions [[1, 2, 3], [4, 5, 6]] [(0, 2)]
        (\<lambda>k. 0) 0
        \<lparr>bb = [(0, 0, 0), (1, 0, 0), (1, 1, 0), (0, 0, 0), (0, 0, 0)], idx = 3,
          lens_pos = 0, bend_pos = 0\<rparr>
     = Some (Inr \<lparr>bb = [(0, 0, 0), (1, 0, 0), (1, 1, 0), (1.33, pi - 2.03, 2),
                        (1.46, pi - 2.12, 3)], idx = 5, lens_pos = 3, bend_pos = 3\<rparr>)"
    by (subst growth_loop.simps)
       (simp add: RC_def np_rows_def agls_def ravel_def place_step_def np_index_def
          cycle_next_def bond_lens_def bond_bend_def)
  from growth_loop_stops_at_budget [of "[(0, 2)]" "[[1, 2, 3], [4, 5, 6]]"
      "\<lparr>bb = [(0, 0, 0), (1, 0, 0), (1, 1, 0), (0, 0, 0), (0, 0, 0)], idx = 3,
          lens_pos = 0, bend_pos = 0\<rparr>" probe_placer example_definitions "\<lambda>k. 0" 0] run
  show ?thesis by (simp add: np_rows_def ravel_def)
qed

text \<open>
  Claim C6 as stated fails for a pool whose fragments have a single row: the slice
  \<open>[1:-2]\<close> of three values is empty, the loop over the torsions does nothing and raises
  nothing, and \<open>while True\<close> never ends.
\<close>

theorem growth_loop_stops_at_budget_counterexample:
  "main_build make_coord_placer example_definitions
     (\<lambda>c. Some [''N'', ''CA'', ''C'', ''O'']) [[1, 2, 3]] [(0, 1)] (\<lambda>k. 0) ''AA'' = None"
proof -
  have labels: "generate_atom_labels (\<lambda>c. Some [''N'', ''CA'', ''C'', ''O'']) ''AA''
      = Inr [''N'', ''CA'', ''C'', ''O'', ''N'', ''CA'', ''C'', ''O'']"
    by simp
  have nbb: "length (filter bb_mask [''N'', ''CA'', ''C'', ''O'', ''N'', ''CA'', ''C'', ''O''])
      = 6"
    by (simp add: bb_mask_def)
  obtain s where seed: "seed make_coord_placer example_definitions 6 = Inr s"
    by (simp add: seed_def Let_def)
  have div: "growth_loop make_coord_placer example_definitions [[1, 2, 3]] [(0, 1)] (\<lambda>k. 0) 0 s
      = None"
    by (rule growth_loop_diverges) (simp_all add: agls_def np_rows_def ravel_def)
  show ?thesis
    unfolding main_build_def labels sum.case nbb seed div
    by (simp only: list.distinct if_False)
qed

section \<open>Torsion angles of more than four atoms\<close>

text \<open>
  Claim C1. \<open>calc_torsion_angles\<close> returns one angle for each four consecutive atoms, and
  for exactly four atoms the angle is the dihedral (the two lemmas above). For more atoms
  the angles are not the dihedrals: the cross products and the bonds are divided by the
  norm of their whole array instead of row by row, which scales the sine and the cosine
  of an angle differently. For the five atoms below the function returns \<open>- pi / 6\<close> for
  the first torsion, whose dihedral is \<open>- pi / 4\<close>, the value the function returns for the
  first four atoms alone.
\<close>

theorem calc_torsion_angles_five_atoms:
  "calc_torsion_angles [(0, 0, 0), (1, 0, 0), (1, 1, 0), (0, 1, - 1), (1, 1, - 1)]
     = Inr [Some (- (pi / 6)), Some (- (pi / 2))]
   \<and> dihedral_spec (0, 0, 0) (1, 0, 0) (1, 1, 0) (0, 1, - 1) = - (pi / 4)
   \<and> dihedral_spec (1, 0, 0) (1, 1, 0) (0, 1, - 1) (1, 1, - 1) = - (pi / 2)
   \<and> calc_torsion_angles [(0, 0, 0), (1, 0, 0), (1, 1, 0), (0, 1, - 1)]
     = Inr [Some (- (pi / 4))]"
proof -
  have five: "calc_torsion_angles [(0, 0, 0), (1, 0, 0), (1, 1, 0), (0, 1, - 1), (1, 1, - 1)]
     = Inr [Some (- (pi / 6)), Some (- (pi / 2))]"
    by (simp add: calc_torsion_angles_def frobenius_def Let_def arctan2_def arctan_inv_sqrt3)
  have first: "dihedral_spec (0, 0, 0) (1, 0, 0) (1, 1, 0) (0, 1, - 1) = - (pi / 4)"
    by (simp add: dihedral_spec_def normalize3_def Let_def arctan2_def arctan_one)
  have second: "dihedral_spec (1, 0, 0) (1, 1, 0) (0, 1, - 1) (1, 1, - 1) = - (pi / 2)"
    by (simp add: dihedral_spec_def normalize3_def Let_def arctan2_def)
  have four: "calc_torsion_angles [(0, 0, 0), (1, 0, 0), (1, 1, 0), (0, 1, - 1)]
     = Inr [Some (dihedral_spec (0, 0, 0) (1, 0, 0) (1, 1, 0) (0, 1, - 1))]"
    by (rule calc_torsion_angles_four_atoms) (simp_all add: zero3_def)
  show ?thesis using five first second four by simp
qed

end
